theory Spec2Isabelle
  imports Main
begin

section \<open>Data model\<close>

text \<open>
  The enumerations \<open>CipherMode\<close> and \<open>CipherType\<close> and the settings structure of
  \<^verbatim>\<open>ProcessCommandLine.hpp\<close>.
\<close>

datatype CipherMode = Encrypt | Decrypt

datatype CipherType = Caesar | Playfair | Vigenere

record ProgramSettings =
  helpRequested :: bool
  versionRequested :: bool
  inputFile :: string
  outputFile :: string
  cipherKey :: string
  cipherMode :: CipherMode
  cipherType :: CipherType

text \<open>
  The exceptions of the program, each carrying the text of \<^verbatim>\<open>what()\<close>:
  \<open>MissingArgument\<close> and \<open>UnknownArgument\<close> (\<^verbatim>\<open>ProcessCommandLine.hpp\<close>),
  \<open>InvalidKey\<close> (\<^verbatim>\<open>Cipher.hpp\<close>), the \<^verbatim>\<open>std::out_of_range\<close> of
  \<^verbatim>\<open>std::string::substr\<close>, and any other exception.
\<close>

datatype exn =
    MissingArgument string
  | UnknownArgument string
  | InvalidKey string
  | out_of_range
  | other_exception string

text \<open>
  \<^verbatim>\<open>Cipher\<close> is a purely abstract class with the one operation
  \<^verbatim>\<open>applyCipher(inputText, cipherMode)\<close>; an instance is modelled by that
  operation, which returns the output text or throws.
\<close>

type_synonym Cipher = "string \<Rightarrow> CipherMode \<Rightarrow> exn + string"

section \<open>The segments of the Caesar dispatch\<close>

text \<open>
  \<^verbatim>\<open>int numThreads = 4;\<close> and \<^verbatim>\<open>size_t inputLength = inputText.length();\<close>
  The arguments of the \<open>i\<close>-th task are computed in \<^verbatim>\<open>size_t\<close> (the \<^verbatim>\<open>int\<close>
  operands are converted), here 64 bits wide: the product \<^verbatim>\<open>i*inputLength\<close> wraps
  around at \<open>2 ^ 64\<close>; the sum of quotient and remainder cannot.
\<close>

definition numThreads :: nat where
  "numThreads = 4"

definition seg_first :: "nat \<Rightarrow> nat \<Rightarrow> nat" where
  "seg_first i inputLength = ((i * inputLength) mod 2 ^ 64) div numThreads"

definition seg_len :: "nat \<Rightarrow> nat \<Rightarrow> nat" where
  "seg_len i inputLength =
     (if i \<noteq> numThreads - 1 then inputLength div numThreads
      else inputLength div numThreads + inputLength mod numThreads)"

text \<open>
  \<^verbatim>\<open>std::string::substr(pos, n)\<close> throws \<^verbatim>\<open>std::out_of_range\<close> when
  \<open>pos\<close> is beyond the size of the string, and otherwise returns the characters
  from \<open>pos\<close>, at most \<open>n\<close> of them and no more than the string has.
\<close>

definition substr :: "string \<Rightarrow> nat \<Rightarrow> nat \<Rightarrow> exn + string" where
  "substr s pos n = (if length s < pos then Inl out_of_range else Inr (take n (drop pos s)))"

text \<open>The arguments \<open>(first, len)\<close> handed to \<^verbatim>\<open>std::async\<close> by the loop over \<open>i\<close>.\<close>

definition task_args :: "nat \<Rightarrow> (nat \<times> nat) list" where
  "task_args inputLength =
     map (\<lambda>i. (seg_first i inputLength, seg_len i inputLength)) [0..<numThreads]"

text \<open>The substrings of the input text that the tasks work on.\<close>

definition segments :: "string \<Rightarrow> (exn + string) list" where
  "segments inputText =
     map (\<lambda>(first, len). substr inputText first len) (task_args (length inputText))"

section \<open>The worker tasks and the collection of their results\<close>

text \<open>
  The lambda \<^verbatim>\<open>fn\<close> of \<^verbatim>\<open>main\<close>: the cipher applied to
  \<^verbatim>\<open>inputText.substr(first, len)\<close>. An exception of \<^verbatim>\<open>substr\<close> or of
  \<^verbatim>\<open>applyCipher\<close> leaves the lambda.
\<close>

definition fn :: "Cipher \<Rightarrow> string \<Rightarrow> CipherMode \<Rightarrow> nat \<Rightarrow> nat \<Rightarrow> exn + string" where
  "fn cipher inputText mode first len =
     (case substr inputText first len of
        Inl e \<Rightarrow> Inl e
      | Inr s \<Rightarrow> cipher s mode)"

text \<open>
  A future is modelled by what its task produces: the string that \<^verbatim>\<open>get()\<close>
  returns, or the exception that \<^verbatim>\<open>get()\<close> rethrows. When the task is done is
  not decided by the program: \<open>wait_for j k\<close> is the status that the \<open>k\<close>-th call of
  \<^verbatim>\<open>wait_for(std::chrono::seconds(10))\<close> on the \<open>j\<close>-th future returns.
\<close>

datatype future_status = ready | timeout | deferred

definition endl :: string where
  "endl = [CHR 0x0A]"

text \<open>
  The \<^verbatim>\<open>do ... while (status != std::future_status::ready)\<close> loop on one future,
  from its \<open>k\<close>-th poll on; \<open>cout\<close> is what has been printed so far. The loop has no
  other exit, so it is a partial function: \<open>None\<close> when no poll ever returns
  \<open>ready\<close>.
\<close>

partial_function (option) wait_until_ready ::
  "(nat \<Rightarrow> future_status) \<Rightarrow> nat \<Rightarrow> string \<Rightarrow> string option" where
  "wait_until_ready status k cout =
     (if status k = ready then Some cout
      else wait_until_ready status (Suc k)
             (if status k = timeout then cout @ ''waiting... '' @ endl else cout))"

text \<open>
  The loop \<^verbatim>\<open>for (auto &elem : futures)\<close>: wait for the \<open>j\<close>-th future, then
  append the result of \<^verbatim>\<open>get()\<close> to \<open>outputText\<close>. The result is what was
  printed and either the assembled text or the exception that left the loop.
\<close>

fun collect ::
  "(nat \<Rightarrow> nat \<Rightarrow> future_status) \<Rightarrow> nat \<Rightarrow> (exn + string) list \<Rightarrow> string \<Rightarrow> string
     \<Rightarrow> (string \<times> (exn + string)) option" where
  "collect wait_for j [] cout outputText = Some (cout, Inr outputText)"
| "collect wait_for j (elem # futures) cout outputText =
     (case wait_until_ready (wait_for j) 0 cout of
        None \<Rightarrow> None
      | Some cout' \<Rightarrow>
          (case elem of
             Inl e \<Rightarrow> Some (cout', Inl e)
           | Inr s \<Rightarrow> collect wait_for (Suc j) futures cout' (outputText @ s)))"

text \<open>
  The processing of the input text, lines 124 to 161 of \<^verbatim>\<open>mpags-cipher.cpp\<close>.
  Beside the result, the record keeps which calls were made: \<open>launched\<close> holds the
  arguments of every \<^verbatim>\<open>std::async(fn, first, len)\<close>, in order, and \<open>direct\<close> the
  texts that \<^verbatim>\<open>main\<close> itself passed to \<^verbatim>\<open>applyCipher\<close>. \<open>finished\<close> is
  \<open>None\<close> when the wait for the futures never ends.
\<close>

record Processed =
  launched :: "(nat \<times> nat) list"
  direct :: "string list"
  finished :: "(string \<times> (exn + string)) option"

definition process_text ::
  "Cipher \<Rightarrow> CipherType \<Rightarrow> CipherMode \<Rightarrow> string \<Rightarrow> (nat \<Rightarrow> nat \<Rightarrow> future_status) \<Rightarrow> Processed"
  where
  "process_text cipher type mode inputText wait_for =
     (if type = Caesar then
        (let inputLength = length inputText;
             args = task_args inputLength;
             futures = map (\<lambda>(first, len). fn cipher inputText mode first len) args
         in \<lparr> launched = args, direct = [],
              finished = collect wait_for 0 futures [] [] \<rparr>)
      else
        \<lparr> launched = [], direct = [inputText],
          finished = Some ([], cipher inputText mode) \<rparr>)"

section \<open>The main function\<close>

text \<open>
  What \<^verbatim>\<open>main\<close> uses and this repository's files do not define is a parameter:
  \<^verbatim>\<open>processCommandLine\<close> (declared in \<^verbatim>\<open>ProcessCommandLine.hpp\<close>),
  \<^verbatim>\<open>transformChar\<close>, \<^verbatim>\<open>cipherFactory\<close> (which returns a cipher, a null
  pointer or throws), the files (\<open>ifstream f\<close> is the content of \<open>f\<close> when a stream
  on it is good, \<open>ofstream_good f\<close> says whether \<open>f\<close> can be written), the
  standard input and the statuses of the futures.
\<close>

record Environment =
  processCommandLine :: "string list \<Rightarrow> ProgramSettings \<Rightarrow> exn + ProgramSettings"
  transformChar :: "char \<Rightarrow> string"
  cipherFactory :: "CipherType \<Rightarrow> string \<Rightarrow> exn + Cipher option"
  ifstream :: "string \<Rightarrow> string option"
  cin :: string
  ofstream_good :: "string \<Rightarrow> bool"
  wait_for :: "nat \<Rightarrow> nat \<Rightarrow> future_status"

text \<open>
  How \<^verbatim>\<open>main\<close> ends: it returns an exit code, or an exception that nothing
  catches ends the process. \<open>outfile\<close> is the name and the new content of the output
  file when it was written.
\<close>

datatype ending = Return int | Terminate exn

record Outcome =
  status :: ending
  cout :: string
  cerr :: string
  outfile :: "(string \<times> string) option"

definition usage :: string where
  "usage =
     ''Usage: mpags-cipher [-i/--infile <file>] [-o/--outfile <file>] [-c/--cipher <cipher>] [-k/--key <key>] [--encrypt/--decrypt]'' @ endl @ endl
   @ ''Encrypts/Decrypts input alphanumeric text using classical ciphers'' @ endl @ endl
   @ ''Available options:'' @ endl @ endl
   @ ''  -h|--help'' @ endl
   @ ''                      Print this help message and exit'' @ endl @ endl
   @ ''  -v|--version'' @ endl
   @ ''                      Print version information'' @ endl @ endl
   @ ''  -i|--infile FILE'' @ endl
   @ ''                      Read text to be processed from FILE'' @ endl
   @ ''                      Stdin will be used if not supplied'' @ endl @ endl
   @ ''  -o|--outfile FILE'' @ endl
   @ ''                      Write processed text to FILE'' @ endl
   @ ''                      Stdout will be used if not supplied'' @ endl @ endl
   @ ''  -c|--cipher CIPHER'' @ endl
   @ ''                      Specify the cipher to be used to perform the encryption/decryption'' @ endl
   @ ''                      CIPHER can be caesar, playfair or vigenere - caesar is the default'' @ endl @ endl
   @ ''  -k|--key KEY'' @ endl
   @ ''                      Specify the cipher KEY'' @ endl
   @ ''                      A null key, i.e. no encryption, is used if not supplied'' @ endl @ endl
   @ ''  --encrypt'' @ endl
   @ ''                      Will use the cipher to encrypt the input text (default behaviour)'' @ endl @ endl
   @ ''  --decrypt'' @ endl
   @ ''                      Will use the cipher to decrypt the input text'' @ endl @ endl"

text \<open>
  \<^verbatim>\<open>while (stream >> inputChar) inputText += transformChar(inputChar);\<close> The
  extraction of a \<^verbatim>\<open>char\<close> skips white space.
\<close>

definition isspace :: "char \<Rightarrow> bool" where
  "isspace c = (let n = (of_char c :: nat) in n = 32 \<or> (9 \<le> n \<and> n \<le> 13))"

fun read_chars :: "(char \<Rightarrow> string) \<Rightarrow> string \<Rightarrow> string \<Rightarrow> string" where
  "read_chars tc [] inputText = inputText"
| "read_chars tc (inputChar # rest) inputText =
     (if isspace inputChar then read_chars tc rest inputText
      else read_chars tc rest (inputText @ tc inputChar))"

text \<open>Reading the input, lines 79 to 107: \<open>None\<close> when the input file cannot be read.\<close>

definition read_input :: "Environment \<Rightarrow> ProgramSettings \<Rightarrow> string option" where
  "read_input E settings =
     (if inputFile settings \<noteq> [] then
        (case ifstream E (inputFile settings) of
           None \<Rightarrow> None
         | Some content \<Rightarrow> Some (read_chars (transformChar E) content []))
      else Some (read_chars (transformChar E) (cin E) []))"

text \<open>Writing the output, lines 163 to 184, after \<open>printed\<close> has gone to \<open>cout\<close>.\<close>

definition write_output :: "Environment \<Rightarrow> ProgramSettings \<Rightarrow> string \<Rightarrow> string \<Rightarrow> Outcome" where
  "write_output E settings printed outputText =
     (if outputFile settings \<noteq> [] then
        (if \<not> ofstream_good E (outputFile settings) then
           \<lparr> status = Return 1, cout = printed,
             cerr = ''[error] failed to create ostream on file '' @ [CHR 0x27]
                    @ outputFile settings @ [CHR 0x27] @ endl,
             outfile = None \<rparr>
         else
           \<lparr> status = Return 0, cout = printed, cerr = [],
             outfile = Some (outputFile settings, outputText @ endl) \<rparr>)
      else
        \<lparr> status = Return 0, cout = printed @ outputText @ endl, cerr = [],
          outfile = None \<rparr>)"

text \<open>Lines 109 to 161: the construction of the cipher and its use.\<close>

definition run_cipher :: "Environment \<Rightarrow> ProgramSettings \<Rightarrow> string \<Rightarrow> Outcome option" where
  "run_cipher E settings inputText =
     (case cipherFactory E (cipherType settings) (cipherKey settings) of
        Inl (InvalidKey what) \<Rightarrow>
          Some \<lparr> status = Return 1, cout = [],
                 cerr = ''[error] Invalid key: '' @ what @ endl, outfile = None \<rparr>
      | Inl e \<Rightarrow> Some \<lparr> status = Terminate e, cout = [], cerr = [], outfile = None \<rparr>
      | Inr None \<Rightarrow>
          Some \<lparr> status = Return 1, cout = [],
                 cerr = ''[error] problem constructing requested cipher'' @ endl,
                 outfile = None \<rparr>
      | Inr (Some cipher) \<Rightarrow>
          (case finished (process_text cipher (cipherType settings) (cipherMode settings)
                            inputText (wait_for E)) of
             None \<Rightarrow> None
           | Some (printed, Inl e) \<Rightarrow>
               Some \<lparr> status = Terminate e, cout = printed, cerr = [], outfile = None \<rparr>
           | Some (printed, Inr outputText) \<Rightarrow>
               Some (write_output E settings printed outputText)))"

text \<open>
  \<^verbatim>\<open>main\<close>: \<open>None\<close> when it never ends. The settings start as
  \<^verbatim>\<open>{ false, false, "", "", "", CipherMode::Encrypt, CipherType::Caesar }\<close>.
\<close>

definition initial_settings :: ProgramSettings where
  "initial_settings =
     \<lparr> helpRequested = False, versionRequested = False, inputFile = [], outputFile = [],
       cipherKey = [], cipherMode = Encrypt, cipherType = Caesar \<rparr>"

definition main :: "Environment \<Rightarrow> string list \<Rightarrow> Outcome option" where
  "main E cmdLineArgs =
     (case processCommandLine E cmdLineArgs initial_settings of
        Inl (MissingArgument what) \<Rightarrow>
          Some \<lparr> status = Return 1, cout = [],
                 cerr = ''[error] Missing argument: '' @ what @ endl, outfile = None \<rparr>
      | Inl (UnknownArgument what) \<Rightarrow>
          Some \<lparr> status = Return 1, cout = [],
                 cerr = ''[error] Unknown argument: '' @ what @ endl, outfile = None \<rparr>
      | Inl e \<Rightarrow> Some \<lparr> status = Terminate e, cout = [], cerr = [], outfile = None \<rparr>
      | Inr settings \<Rightarrow>
          if helpRequested settings then
            Some \<lparr> status = Return 0, cout = usage, cerr = [], outfile = None \<rparr>
          else if versionRequested settings then
            Some \<lparr> status = Return 0, cout = ''0.5.0'' @ endl, cerr = [], outfile = None \<rparr>
          else
            (case read_input E settings of
               None \<Rightarrow>
                 Some \<lparr> status = Return 1, cout = [],
                        cerr = ''[error] failed to create istream on file '' @ [CHR 0x27]
                               @ inputFile settings @ [CHR 0x27] @ endl,
                        outfile = None \<rparr>
             | Some inputText \<Rightarrow> run_cipher E settings inputText))"

section \<open>The Caesar cipher\<close>

text \<open>The letters of the 26-letter alphabet, by their character codes.\<close>

definition isupper :: "char \<Rightarrow> bool" where
  "isupper c = (65 \<le> (of_char c :: nat) \<and> (of_char c :: nat) \<le> 90)"

definition islower :: "char \<Rightarrow> bool" where
  "islower c = (97 \<le> (of_char c :: nat) \<and> (of_char c :: nat) \<le> 122)"

definition isalpha :: "char \<Rightarrow> bool" where
  "isalpha c = (isupper c \<or> islower c)"

text \<open>
  Modelled from the spec: the effective shift of \<^verbatim>\<open>CaesarCipher\<close>, whose source
  is not among the files of the repository (\<^verbatim>\<open>Cipher.hpp\<close> declares only the
  interface). Section 4.3: the shift is the integer key reduced modulo 26, a negative
  key wrapping to a positive residue, and on decryption the key is negated before the
  reduction.
\<close>

definition caesar_shift :: "int \<Rightarrow> CipherMode \<Rightarrow> nat" where
  "caesar_shift key mode = nat ((if mode = Encrypt then key else - key) mod 26)"

text \<open>
  Modelled from the spec: the transformation of one character by
  \<^verbatim>\<open>CaesarCipher\<close> (source missing). Section 4.3: the shift is added to the
  alphabet index of the letter, modulo 26, and the result has the case of the original
  letter. A character that is not a letter is passed through (section 4.1 allows it).
\<close>

definition caesar_char :: "nat \<Rightarrow> char \<Rightarrow> char" where
  "caesar_char shift c =
     (if isupper c then char_of ((of_char c - 65 + shift) mod 26 + 65)
      else if islower c then char_of ((of_char c - 97 + shift) mod 26 + 97)
      else c)"

text \<open>
  Modelled from the spec: \<^verbatim>\<open>CaesarCipher::applyCipher\<close> (source missing), for the
  cipher built from an integer key. Section 4.3: every character is transformed on its
  own; the call never fails.
\<close>

definition CaesarCipher :: "int \<Rightarrow> Cipher" where
  "CaesarCipher key inputText mode = Inr (map (caesar_char (caesar_shift key mode)) inputText)"

text \<open>
  The documented input domain of \<^verbatim>\<open>applyCipher\<close> (specification, section 7):
  texts of letters only.
\<close>

definition letters_only :: "string \<Rightarrow> bool" where
  "letters_only s = list_all isalpha s"

section \<open>The factory and the other ciphers\<close>

text \<open>
  Modelled from the spec: the index of a letter in the 26-letter alphabet, ignoring
  case (alphabet utilities, section 4.1; their source is missing).
\<close>

definition letter_index :: "char \<Rightarrow> nat" where
  "letter_index c = (if islower c then of_char c - 97 else of_char c - 65)"

text \<open>
  Modelled from the spec: the key of \<^verbatim>\<open>VigenereCipher\<close> (source missing), section
  4.5: the key is filtered to its letters and normalised to letter indices.
\<close>

definition vigenere_key :: "string \<Rightarrow> nat list" where
  "vigenere_key key = map letter_index (filter isalpha key)"

text \<open>
  Modelled from the spec: the key index aligned with the \<open>j\<close>-th letter of the text, the
  key being repeated cyclically (section 4.5). With no key index there is none to
  take: the call fails.
\<close>

definition key_at :: "nat list \<Rightarrow> nat \<Rightarrow> exn + nat" where
  "key_at ks j =
     (if ks = [] then Inl (other_exception ''empty key'') else Inr (ks ! (j mod length ks)))"

text \<open>
  Modelled from the spec: \<^verbatim>\<open>VigenereCipher::applyCipher\<close> (source missing), section
  4.5, from the \<open>j\<close>-th key position on: encryption adds the key index to the index of
  the letter modulo 26, decryption subtracts it, the case of the letter is kept; a
  character that is not a letter is passed through and takes no key position.
\<close>

fun vigenere_text :: "nat list \<Rightarrow> CipherMode \<Rightarrow> nat \<Rightarrow> string \<Rightarrow> exn + string" where
  "vigenere_text ks mode j [] = Inr []"
| "vigenere_text ks mode j (c # cs) =
     (if isalpha c then
        (case key_at ks j of
           Inl e \<Rightarrow> Inl e
         | Inr k \<Rightarrow>
             (case vigenere_text ks mode (Suc j) cs of
                Inl e \<Rightarrow> Inl e
              | Inr out \<Rightarrow>
                  Inr (caesar_char (if mode = Encrypt then k else 26 - k mod 26) c # out)))
      else
        (case vigenere_text ks mode j cs of
           Inl e \<Rightarrow> Inl e
         | Inr out \<Rightarrow> Inr (c # out)))"

text \<open>
  Modelled from the spec: the \<^verbatim>\<open>VigenereCipher\<close> with the given key indices as a
  cipher instance (source missing).
\<close>

definition VigenereCipher :: "nat list \<Rightarrow> Cipher" where
  "VigenereCipher ks inputText mode = vigenere_text ks mode 0 inputText"

text \<open>
  Modelled from the spec: the single effective case of \<^verbatim>\<open>PlayfairCipher\<close> (source
  missing), section 4.4: a letter is taken in upper case, and \<open>J\<close> is the same cell as
  \<open>I\<close>.
\<close>

definition toupper :: "char \<Rightarrow> char" where
  "toupper c = (if islower c then char_of ((of_char c :: nat) - 32) else c)"

definition merge_ij :: "char \<Rightarrow> char" where
  "merge_ij c = (if c = CHR ''J'' then CHR ''I'' else c)"

text \<open>
  Modelled from the spec: the 25 letters of the Playfair square (section 3), the
  alphabet \<open>A\<close> to \<open>Z\<close> without \<open>J\<close>, in order.
\<close>

definition alphabet25 :: string where
  "alphabet25 = map char_of (filter (\<lambda>n. n \<noteq> 74) [65..<91 :: nat])"

text \<open>
  Modelled from the spec: the letters of a Playfair key (section 4.4): the key filtered
  to letters, in the single effective case.
\<close>

definition playfair_key :: "string \<Rightarrow> string" where
  "playfair_key key = map (merge_ij \<circ> toupper) (filter isalpha key)"

text \<open>
  Modelled from the spec: the construction of the Playfair square (section 4.4), as
  the list of its cells row by row: the key letters are written in order, then the
  letters of the alphabet in order, each letter that is already placed being skipped.
\<close>

definition place :: "string \<Rightarrow> char \<Rightarrow> string" where
  "place square c = (if c \<in> set square then square else square @ [c])"

definition playfair_square :: "string \<Rightarrow> string" where
  "playfair_square key = foldl place [] (playfair_key key @ alphabet25)"

text \<open>
  Modelled from the spec: the two lookups of the square (section 3), from a letter to
  its row and column and back. A character that is in no cell has no position, and
  there is no letter outside the square: these calls fail.
\<close>

fun index_of :: "char \<Rightarrow> string \<Rightarrow> nat option" where
  "index_of c [] = None"
| "index_of c (x # xs) = (if x = c then Some 0 else map_option Suc (index_of c xs))"

definition position :: "string \<Rightarrow> char \<Rightarrow> exn + nat \<times> nat" where
  "position square c =
     (case index_of c square of
        None \<Rightarrow> Inl (other_exception ''not in the key square'')
      | Some i \<Rightarrow> Inr (i div 5, i mod 5))"

definition letter_at :: "string \<Rightarrow> nat \<Rightarrow> nat \<Rightarrow> exn + char" where
  "letter_at square row col =
     (if 5 * row + col < length square then Inr (square ! (5 * row + col))
      else Inl out_of_range)"

text \<open>
  Modelled from the spec: the preparation of the digraphs on encryption (section 4.4):
  between the two equal letters of a pair the filler is inserted and the text is split
  again from the second of them; a single last letter is completed by the filler. The
  filler is \<open>X\<close>, and \<open>Q\<close> next to an \<open>X\<close>.
\<close>

definition filler :: "char \<Rightarrow> char" where
  "filler c = (if c = CHR ''X'' then CHR ''Q'' else CHR ''X'')"

fun prepare :: "string \<Rightarrow> string" where
  "prepare [] = []"
| "prepare [a] = [a, filler a]"
| "prepare (a # b # rest) =
     (if a = b then a # filler a # prepare (b # rest) else a # b # prepare rest)"

text \<open>
  Modelled from the spec: the substitution of one pair (section 4.4). In the same row
  each letter is replaced by the one to its right on encryption and to its left on
  decryption, in the same column by the one below or above, both modulo 5; otherwise
  each letter is replaced by the letter in its own row and the column of the other.
\<close>

definition step :: "CipherMode \<Rightarrow> nat \<Rightarrow> nat" where
  "step mode x = (if mode = Encrypt then (x + 1) mod 5 else (x + 4) mod 5)"

definition substitute :: "string \<Rightarrow> CipherMode \<Rightarrow> char \<Rightarrow> char \<Rightarrow> exn + char \<times> char" where
  "substitute square mode a b =
     (case position square a of
        Inl e \<Rightarrow> Inl e
      | Inr (r1, c1) \<Rightarrow>
          (case position square b of
             Inl e \<Rightarrow> Inl e
           | Inr (r2, c2) \<Rightarrow>
               (let target =
                      (if r1 = r2 then ((r1, step mode c1), (r2, step mode c2))
                       else if c1 = c2 then ((step mode r1, c1), (step mode r2, c2))
                       else ((r1, c2), (r2, c1)))
                in case letter_at square (fst (fst target)) (snd (fst target)) of
                     Inl e \<Rightarrow> Inl e
                   | Inr x \<Rightarrow>
                       (case letter_at square (fst (snd target)) (snd (snd target)) of
                          Inl e \<Rightarrow> Inl e
                        | Inr y \<Rightarrow> Inr (x, y)))))"

text \<open>
  Modelled from the spec: the text taken in pairs as received (section 4.4). The
  specification does not say what becomes of a single last letter, which only a
  decryption can meet: it has no partner, no rule applies to it, and it is kept.
\<close>

fun playfair_pairs :: "string \<Rightarrow> CipherMode \<Rightarrow> string \<Rightarrow> exn + string" where
  "playfair_pairs square mode [] = Inr []"
| "playfair_pairs square mode [a] = Inr [a]"
| "playfair_pairs square mode (a # b # rest) =
     (case substitute square mode a b of
        Inl e \<Rightarrow> Inl e
      | Inr (x, y) \<Rightarrow>
          (case playfair_pairs square mode rest of
             Inl e \<Rightarrow> Inl e
           | Inr out \<Rightarrow> Inr (x # y # out)))"

text \<open>
  Modelled from the spec: \<^verbatim>\<open>PlayfairCipher::applyCipher\<close> (source missing), section
  4.4, for the cipher with the given square: the text is taken in the single effective
  case, prepared on encryption only, and substituted pair by pair.
\<close>

definition PlayfairCipher :: "string \<Rightarrow> Cipher" where
  "PlayfairCipher square inputText mode =
     (let letters = map (merge_ij \<circ> toupper) inputText
      in playfair_pairs square mode (if mode = Encrypt then prepare letters else letters))"

text \<open>
  Modelled from the spec: the reading of a Caesar key (section 4.3), which must parse
  entirely as an integer: decimal digits, at least one, after an optional minus sign.
\<close>

definition isdigit :: "char \<Rightarrow> bool" where
  "isdigit c = (48 \<le> (of_char c :: nat) \<and> (of_char c :: nat) \<le> 57)"

definition parse_nat :: "string \<Rightarrow> nat option" where
  "parse_nat s =
     (if s \<noteq> [] \<and> list_all isdigit s
      then Some (foldl (\<lambda>n c. 10 * n + (of_char c - 48)) 0 s) else None)"

definition parse_int :: "string \<Rightarrow> int option" where
  "parse_int s =
     (case s of
        [] \<Rightarrow> None
      | c # cs \<Rightarrow>
          if c = CHR ''-'' then map_option (\<lambda>n. - int n) (parse_nat cs)
          else map_option int (parse_nat s))"

text \<open>
  Modelled from the spec: \<^verbatim>\<open>cipherFactory\<close> (source missing), section 4.6, with the
  validation of each variant (sections 4.3 to 4.5): the Caesar key must be an integer,
  the Playfair and the Vigenere key must hold a letter; otherwise the construction
  throws \<open>InvalidKey\<close>. The specification does not give the texts of the exceptions.
\<close>

definition cipherFactory_model :: "CipherType \<Rightarrow> string \<Rightarrow> exn + Cipher option" where
  "cipherFactory_model type key =
     (case type of
        Caesar \<Rightarrow>
          (case parse_int key of
             None \<Rightarrow> Inl (InvalidKey ''the Caesar key must be an integer'')
           | Some k \<Rightarrow> Inr (Some (CaesarCipher k)))
      | Playfair \<Rightarrow>
          (if playfair_key key = [] then Inl (InvalidKey ''the Playfair key has no letter'')
           else Inr (Some (PlayfairCipher (playfair_square key))))
      | Vigenere \<Rightarrow>
          (if vigenere_key key = [] then Inl (InvalidKey ''the Vigenere key has no letter'')
           else Inr (Some (VigenereCipher (vigenere_key key)))))"

section \<open>Reference notions for the properties\<close>

text \<open>
  The results of the futures taken in index order with no waiting at all: the text
  assembled from them, or the first exception.
\<close>

fun get_all :: "(exn + string) list \<Rightarrow> string \<Rightarrow> exn + string" where
  "get_all [] outputText = Inr outputText"
| "get_all (Inl e # futures) outputText = Inl e"
| "get_all (Inr s # futures) outputText = get_all futures (outputText @ s)"

text \<open>
  The paths through \<^verbatim>\<open>main\<close>, each named by the condition under which it is
  taken. \<open>proceeds\<close> gives the settings when the command line was processed and
  neither help nor version was asked for, \<open>constructed\<close> adds the input text and what
  the factory did, \<open>processed\<close> the output text when the cipher was applied.
\<close>

definition missing_argument :: "Environment \<Rightarrow> string list \<Rightarrow> bool" where
  "missing_argument E args =
     (case processCommandLine E args initial_settings of
        Inl (MissingArgument what) \<Rightarrow> True | _ \<Rightarrow> False)"

definition unknown_argument :: "Environment \<Rightarrow> string list \<Rightarrow> bool" where
  "unknown_argument E args =
     (case processCommandLine E args initial_settings of
        Inl (UnknownArgument what) \<Rightarrow> True | _ \<Rightarrow> False)"

definition help_requested :: "Environment \<Rightarrow> string list \<Rightarrow> bool" where
  "help_requested E args =
     (case processCommandLine E args initial_settings of
        Inr settings \<Rightarrow> helpRequested settings | Inl e \<Rightarrow> False)"

definition version_requested :: "Environment \<Rightarrow> string list \<Rightarrow> bool" where
  "version_requested E args =
     (case processCommandLine E args initial_settings of
        Inr settings \<Rightarrow> versionRequested settings | Inl e \<Rightarrow> False)"

definition proceeds :: "Environment \<Rightarrow> string list \<Rightarrow> ProgramSettings option" where
  "proceeds E args =
     (case processCommandLine E args initial_settings of
        Inr settings \<Rightarrow>
          if helpRequested settings \<or> versionRequested settings then None else Some settings
      | Inl e \<Rightarrow> None)"

definition unreadable_input :: "Environment \<Rightarrow> string list \<Rightarrow> bool" where
  "unreadable_input E args =
     (case proceeds E args of
        Some settings \<Rightarrow>
          inputFile settings \<noteq> [] \<and> ifstream E (inputFile settings) = None
      | None \<Rightarrow> False)"

definition constructed ::
  "Environment \<Rightarrow> string list \<Rightarrow> (ProgramSettings \<times> string \<times> (exn + Cipher option)) option"
  where
  "constructed E args =
     (case proceeds E args of
        Some settings \<Rightarrow>
          (case read_input E settings of
             Some inputText \<Rightarrow>
               Some (settings, inputText,
                     cipherFactory E (cipherType settings) (cipherKey settings))
           | None \<Rightarrow> None)
      | None \<Rightarrow> None)"

definition invalid_key :: "Environment \<Rightarrow> string list \<Rightarrow> bool" where
  "invalid_key E args =
     (case constructed E args of
        Some (settings, inputText, Inl (InvalidKey what)) \<Rightarrow> True | _ \<Rightarrow> False)"

definition null_cipher :: "Environment \<Rightarrow> string list \<Rightarrow> bool" where
  "null_cipher E args =
     (case constructed E args of
        Some (settings, inputText, Inr None) \<Rightarrow> True | _ \<Rightarrow> False)"

definition processed :: "Environment \<Rightarrow> string list \<Rightarrow> (ProgramSettings \<times> string) option" where
  "processed E args =
     (case constructed E args of
        Some (settings, inputText, Inr (Some cipher)) \<Rightarrow>
          (case finished (process_text cipher (cipherType settings) (cipherMode settings)
                            inputText (wait_for E)) of
             Some (printed, Inr outputText) \<Rightarrow> Some (settings, outputText)
           | _ \<Rightarrow> None)
      | _ \<Rightarrow> None)"

definition unwritable_output :: "Environment \<Rightarrow> string list \<Rightarrow> bool" where
  "unwritable_output E args =
     (case processed E args of
        Some (settings, outputText) \<Rightarrow>
          outputFile settings \<noteq> [] \<and> \<not> ofstream_good E (outputFile settings)
      | None \<Rightarrow> False)"

definition text_written :: "Environment \<Rightarrow> string list \<Rightarrow> bool" where
  "text_written E args =
     (case processed E args of
        Some (settings, outputText) \<Rightarrow>
          outputFile settings = [] \<or> ofstream_good E (outputFile settings)
      | None \<Rightarrow> False)"

section \<open>Example runs\<close>

text \<open>
  A run of the program in which the command line sets the key and nothing else, the
  text comes from the standard input with every character kept as it is, the output
  goes to the standard output, and every task is done when it is first asked.
\<close>

definition example_run ::
  "string \<Rightarrow> string \<Rightarrow> (CipherType \<Rightarrow> string \<Rightarrow> exn + Cipher option) \<Rightarrow> Environment" where
  "example_run key input factory =
     \<lparr> processCommandLine = (\<lambda>args settings. Inr (settings\<lparr>cipherKey := key\<rparr>)),
       transformChar = (\<lambda>c. [c]),
       cipherFactory = factory,
       ifstream = (\<lambda>f. None),
       cin = input,
       ofstream_good = (\<lambda>f. True),
       wait_for = (\<lambda>j k. ready) \<rparr>"

text \<open>\<^verbatim>\<open>mpags-cipher -k 3\<close>: the factory builds the Caesar cipher of shift 3.\<close>

definition caesar_run :: "string \<Rightarrow> Environment" where
  "caesar_run input = example_run ''3'' input (\<lambda>type key. Inr (Some (CaesarCipher 3)))"

text \<open>\<^verbatim>\<open>mpags-cipher -k abc\<close>: the factory throws \<open>InvalidKey\<close>.\<close>

definition invalid_key_run :: Environment where
  "invalid_key_run =
     example_run ''abc'' ''HELLO'' (\<lambda>type key. Inl (InvalidKey ''the key is not a number''))"

text \<open>A run in which the factory returns a null pointer.\<close>

definition null_cipher_run :: Environment where
  "null_cipher_run = example_run ''3'' ''HELLO'' (\<lambda>type key. Inr None)"

text \<open>\<^verbatim>\<open>mpags-cipher -k\<close>: the processing of the command line throws.\<close>

definition missing_argument_run :: Environment where
  "missing_argument_run =
     (caesar_run ''HELLO'')
       \<lparr> processCommandLine := (\<lambda>args settings. Inl (MissingArgument ''-k requires a key'')) \<rparr>"

text \<open>A future whose first poll times out and whose second poll finds it ready.\<close>

definition one_timeout :: "nat \<Rightarrow> nat \<Rightarrow> future_status" where
  "one_timeout j k = (if k = 0 then timeout else ready)"

section \<open>Arithmetic of the segments\<close>

lemma seg_first_le: "i < 4 \<Longrightarrow> seg_first i len \<le> len"
  unfolding seg_first_def numThreads_def
  apply (subgoal_tac "i = 0 \<or> i = 1 \<or> i = 2 \<or> i = 3")
   apply (elim disjE; simp)
  apply arith+
  done

lemma seg_first_exact: "3 * len < 2 ^ 64 \<Longrightarrow> i < 4 \<Longrightarrow> seg_first i len = i * len div 4"
  unfolding seg_first_def numThreads_def
  apply (subgoal_tac "i * len < 2 ^ 64")
   apply simp
  apply (subgoal_tac "i * len \<le> 3 * len")
   apply linarith
  apply simp
  done

lemma seg_len_inner: "i < 3 \<Longrightarrow> seg_len i len = len div 4"
  by (simp add: seg_len_def numThreads_def)

lemma seg_consecutive:
  "3 * len < 2 ^ 64 \<Longrightarrow> i < 3 \<Longrightarrow> seg_first i len + seg_len i len \<le> seg_first (Suc i) len"
  unfolding seg_first_def seg_len_def numThreads_def
  apply (subgoal_tac "i = 0 \<or> i = 1 \<or> i = 2")
   apply (elim disjE; simp)
  apply arith+
  done

lemma seg_first_mono:
  "3 * len < 2 ^ 64 \<Longrightarrow> i \<le> j \<Longrightarrow> j < 4 \<Longrightarrow> seg_first i len \<le> seg_first j len"
proof -
  assume len: "3 * len < 2 ^ 64" and ij: "i \<le> j" and j: "j < 4"
  from ij have "i * len \<le> j * len" by simp
  then have "i * len div 4 \<le> j * len div 4" by (rule div_le_mono)
  with len ij j show ?thesis by (simp add: seg_first_exact)
qed

lemma seg_disjoint:
  assumes len: "3 * len < 2 ^ 64" and ij: "i < j" and j: "j < 4"
  shows "{seg_first i len ..< seg_first i len + seg_len i len}
           \<inter> {seg_first j len ..< seg_first j len + seg_len j len} = {}"
proof -
  from ij j have i: "i < 3" by simp
  from ij have "Suc i \<le> j" by simp
  with len j have "seg_first (Suc i) len \<le> seg_first j len" by (simp add: seg_first_mono)
  moreover from len i have "seg_first i len + seg_len i len \<le> seg_first (Suc i) len"
    by (simp add: seg_consecutive)
  ultimately have "seg_first i len + seg_len i len \<le> seg_first j len" by simp
  then show ?thesis by auto
qed

section \<open>The wait for the futures\<close>

lemma wait_ready_at:
  "p n = ready \<Longrightarrow> k \<le> n \<Longrightarrow> \<exists>out. wait_until_ready p k c = Some out"
proof (induction "n - k" arbitrary: k c)
  case 0
  then have "k = n" by simp
  with 0 show ?case by (simp add: wait_until_ready.simps)
next
  case (Suc d)
  show ?case
  proof (cases "p k = ready")
    case True
    then show ?thesis by (simp add: wait_until_ready.simps)
  next
    case False
    with Suc.prems have "k \<noteq> n" by auto
    with Suc.prems have le: "Suc k \<le> n" by simp
    from Suc.hyps have d: "d = n - Suc k" by simp
    from Suc.hyps(1)[OF d Suc.prems(1) le]
    obtain out where
      "wait_until_ready p (Suc k) (if p k = timeout then c @ ''waiting... '' @ endl else c)
         = Some out"
      by blast
    with False show ?thesis by (subst wait_until_ready.simps) simp
  qed
qed

lemma wait_some_ready:
  assumes "wait_until_ready p0 k0 c0 = Some out0"
  shows "\<exists>n\<ge>k0. p0 n = ready"
proof (rule wait_until_ready.raw_induct
    [where P = "\<lambda>p k c out. \<exists>n\<ge>k. p n = ready", OF _ assms])
  fix w :: "(nat \<Rightarrow> future_status) \<Rightarrow> nat \<Rightarrow> string \<Rightarrow> string option"
    and p k c out
  assume IH: "\<And>p k c out. w p k c = Some out \<Longrightarrow> \<exists>n\<ge>k. p n = ready"
    and eq: "(if p k = ready then Some c
              else w p (Suc k) (if p k = timeout then c @ ''waiting... '' @ endl else c))
             = Some out"
  show "\<exists>n\<ge>k. p n = ready"
  proof (cases "p k = ready")
    case True
    then show ?thesis by blast
  next
    case False
    from eq False
    have "w p (Suc k) (if p k = timeout then c @ ''waiting... '' @ endl else c) = Some out"
      by (simp only: if_False)
    from IH[OF this] obtain n where n: "Suc k \<le> n" "p n = ready" by blast
    from n(1) have "k \<le> n" by simp
    with n(2) show ?thesis by blast
  qed
qed

lemma wait_timeouts:
  "(\<forall>n. s \<le> n \<and> n < s + k \<longrightarrow> p n = timeout) \<Longrightarrow> p (s + k) = ready \<Longrightarrow>
   wait_until_ready p s c = Some (c @ concat (replicate k (''waiting... '' @ endl)))"
proof (induction k arbitrary: s c)
  case 0
  then show ?case by (simp add: wait_until_ready.simps)
next
  case (Suc k)
  from Suc.prems(1) have here: "p s = timeout" by simp
  from Suc.prems(1) have "\<forall>n. Suc s \<le> n \<and> n < Suc s + k \<longrightarrow> p n = timeout" by simp
  moreover from Suc.prems(2) have "p (Suc s + k) = ready" by simp
  ultimately have "wait_until_ready p (Suc s) (c @ ''waiting... '' @ endl)
      = Some ((c @ ''waiting... '' @ endl) @ concat (replicate k (''waiting... '' @ endl)))"
    by (rule Suc.IH)
  with here show ?case by (subst wait_until_ready.simps) simp
qed

lemma collect_returns:
  "\<forall>i<length futures. \<exists>k. polls (j + i) k = ready \<Longrightarrow>
   \<exists>printed. collect polls j futures c out = Some (printed, get_all futures out)"
proof (induction futures arbitrary: j c out)
  case Nil
  then show ?case by simp
next
  case (Cons elem futures)
  have "0 < length (elem # futures)" by simp
  with Cons.prems have "\<exists>k. polls (j + 0) k = ready" by blast
  then obtain k where "polls j k = ready" by auto
  then obtain c' where w: "wait_until_ready (polls j) 0 c = Some c'"
    using wait_ready_at[of "polls j" k 0 c] by auto
  show ?case
  proof (cases elem)
    case (Inl e)
    with w show ?thesis by simp
  next
    case (Inr s)
    have "\<forall>i<length futures. \<exists>k. polls (Suc j + i) k = ready"
    proof (intro allI impI)
      fix i assume "i < length futures"
      then have "Suc i < length (elem # futures)" by simp
      with Cons.prems have "\<exists>k. polls (j + Suc i) k = ready" by blast
      then show "\<exists>k. polls (Suc j + i) k = ready" by simp
    qed
    from Cons.IH[OF this, of c' "out @ s"] Inr w show ?thesis by simp
  qed
qed

lemma collect_Inr:
  "collect polls j futures c out = Some (printed, Inr text) \<Longrightarrow>
   (\<forall>i<length futures. \<exists>k. polls (j + i) k = ready) \<and> get_all futures out = Inr text"
proof (induction futures arbitrary: j c out)
  case Nil
  then show ?case by simp
next
  case (Cons elem futures)
  from Cons.prems obtain c' where w: "wait_until_ready (polls j) 0 c = Some c'"
    by (auto split: option.splits)
  from Cons.prems w obtain s where s: "elem = Inr s"
    and rest: "collect polls (Suc j) futures c' (out @ s) = Some (printed, Inr text)"
    by (auto split: sum.splits)
  from Cons.IH[OF rest] have ih: "\<forall>i<length futures. \<exists>k. polls (Suc j + i) k = ready"
    and g: "get_all futures (out @ s) = Inr text" by auto
  from wait_some_ready[OF w] have r0: "\<exists>k. polls j k = ready" by blast
  have "\<forall>i<length (elem # futures). \<exists>k. polls (j + i) k = ready"
  proof (intro allI impI)
    fix i assume len: "i < length (elem # futures)"
    show "\<exists>k. polls (j + i) k = ready"
    proof (cases i)
      case 0
      with r0 show ?thesis by simp
    next
      case (Suc i')
      with len have "i' < length futures" by simp
      with ih have "\<exists>k. polls (Suc j + i') k = ready" by blast
      with Suc show ?thesis by simp
    qed
  qed
  with g s show ?case by simp
qed

lemma collect_result:
  "collect polls j futures c out = Some (printed, r) \<Longrightarrow> r = get_all futures out"
proof (induction futures arbitrary: j c out)
  case Nil
  then show ?case by simp
next
  case (Cons elem futures)
  from Cons.prems obtain c' where w: "wait_until_ready (polls j) 0 c = Some c'"
    by (auto split: option.splits)
  show ?case
  proof (cases elem)
    case (Inl e)
    with Cons.prems w show ?thesis by auto
  next
    case (Inr s)
    with Cons.prems w have "collect polls (Suc j) futures c' (out @ s) = Some (printed, r)"
      by simp
    from Cons.IH[OF this] Inr show ?thesis by simp
  qed
qed

lemma collect_all_ready:
  "collect (\<lambda>j k. ready) j futures c out = Some (c, get_all futures out)"
proof (induction futures arbitrary: j out)
  case Nil
  show ?case by simp
next
  case (Cons elem futures)
  have "wait_until_ready (\<lambda>k. ready) 0 c = Some c" by (simp add: wait_until_ready.simps)
  with Cons show ?case by (cases elem) simp_all
qed

lemma get_all_Inr:
  "\<forall>f\<in>set futures. \<exists>t. f = Inr t \<Longrightarrow> \<exists>text. get_all futures out = Inr text"
proof (induction futures arbitrary: out)
  case Nil
  show ?case by simp
next
  case (Cons elem futures)
  from Cons.prems obtain t where "elem = Inr t" by auto
  moreover from Cons.prems have "\<forall>f\<in>set futures. \<exists>t. f = Inr t" by simp
  ultimately show ?case using Cons.IH by simp
qed

section \<open>Totality of the worker calls\<close>

lemma letters_only_sub: "letters_only s \<Longrightarrow> letters_only (take n (drop k s))"
  unfolding letters_only_def list_all_iff
  by (meson in_set_dropD in_set_takeD)

lemma fn_total:
  assumes tot: "\<forall>s m. letters_only s \<longrightarrow> (\<exists>t. cipher s m = Inr t)"
    and T: "letters_only T" and i: "i < 4"
  shows "\<exists>t. fn cipher T m (seg_first i (length T)) (seg_len i (length T)) = Inr t"
proof -
  from i have "seg_first i (length T) \<le> length T" by (rule seg_first_le)
  then have "substr T (seg_first i (length T)) (seg_len i (length T))
      = Inr (take (seg_len i (length T)) (drop (seg_first i (length T)) T))"
    by (simp add: substr_def)
  moreover from T
  have "letters_only (take (seg_len i (length T)) (drop (seg_first i (length T)) T))"
    by (rule letters_only_sub)
  ultimately show ?thesis using tot by (simp add: fn_def)
qed

lemma caesar_total: "\<exists>t. CaesarCipher key s m = Inr t"
  by (simp add: CaesarCipher_def)

text \<open>
  The worker calls inherit the totality of the cipher: for a cipher that returns a text
  on every text of letters, and an input text of letters, every one of the four worker
  calls returns a text (the start of its range is never beyond the end of the input, so
  \<^verbatim>\<open>substr\<close> does not throw, and the range holds letters only); so whenever the
  collection ends it ends with a text and not with an exception, and it does end with
  a text when every future is ready at some poll.
\<close>

lemma dispatch_inherits_totality:
  assumes tot: "\<forall>s m. letters_only s \<longrightarrow> (\<exists>t. cipher s m = Inr t)"
    and T: "letters_only T"
  shows "(\<forall>i<numThreads. \<exists>t.
            fn cipher T m (seg_first i (length T)) (seg_len i (length T)) = Inr t)
         \<and> (\<forall>printed r. finished (process_text cipher Caesar m T polls) = Some (printed, r)
               \<longrightarrow> (\<exists>text. r = Inr text))
         \<and> ((\<forall>j<numThreads. \<exists>n. polls j n = ready) \<longrightarrow>
               (\<exists>printed text.
                  finished (process_text cipher Caesar m T polls) = Some (printed, Inr text)))"
proof -
  let ?futures = "map (\<lambda>(first, len). fn cipher T m first len) (task_args (length T))"
  have fin: "finished (process_text cipher Caesar m T polls) = collect polls 0 ?futures [] []"
    by (simp add: process_text_def Let_def)
  have calls: "\<forall>i<numThreads. \<exists>t.
      fn cipher T m (seg_first i (length T)) (seg_len i (length T)) = Inr t"
    using fn_total[OF tot T] by (simp add: numThreads_def)
  then have "\<forall>f\<in>set ?futures. \<exists>t. f = Inr t"
    by (auto simp: task_args_def)
  then obtain out where g: "get_all ?futures [] = Inr out"
    using get_all_Inr by blast
  have len: "length ?futures = numThreads" by (simp add: task_args_def)
  have ends: "\<forall>printed r. finished (process_text cipher Caesar m T polls) = Some (printed, r)
      \<longrightarrow> (\<exists>text. r = Inr text)"
  proof (intro allI impI)
    fix printed r
    assume "finished (process_text cipher Caesar m T polls) = Some (printed, r)"
    with fin have "collect polls 0 ?futures [] [] = Some (printed, r)" by simp
    then have "r = get_all ?futures []" by (rule collect_result)
    with g show "\<exists>text. r = Inr text" by simp
  qed
  have returns: "(\<forall>j<numThreads. \<exists>n. polls j n = ready) \<longrightarrow>
      (\<exists>printed text. finished (process_text cipher Caesar m T polls) = Some (printed, Inr text))"
  proof
    assume "\<forall>j<numThreads. \<exists>n. polls j n = ready"
    with len have "\<forall>i<length ?futures. \<exists>n. polls i n = ready" by simp
    then have "\<exists>printed. collect polls 0 ?futures [] [] = Some (printed, get_all ?futures [])"
      using collect_returns [of ?futures polls 0 "[]" "[]"] by simp
    with g fin
    show "\<exists>printed text. finished (process_text cipher Caesar m T polls) = Some (printed, Inr text)"
      by auto
  qed
  from calls ends returns show ?thesis by blast
qed


section \<open>The dispatch on a text of six letters\<close>

lemma task_args_6: "task_args 6 = [(0, 1), (1, 1), (3, 1), (4, 3)]"
  by (simp add: task_args_def seg_first_def seg_len_def numThreads_def upt_rec)

lemma segments_6: "segments ''ABCDEF'' = [Inr ''A'', Inr ''B'', Inr ''D'', Inr ''EF'']"
proof -
  have "length ''ABCDEF'' = 6" by simp
  then have "segments ''ABCDEF''
      = map (\<lambda>(first, len). substr ''ABCDEF'' first len) (task_args 6)"
    by (simp only: segments_def)
  then show ?thesis by (simp add: task_args_6 substr_def)
qed

lemma caesar_ABCDEF: "CaesarCipher 3 ''ABCDEF'' Encrypt = Inr ''DEFGHI''"
  by (simp add: CaesarCipher_def caesar_shift_def caesar_char_def isupper_def islower_def
      char_of_eq_iff)

lemma futures_6:
  "map (\<lambda>(first, len). fn (CaesarCipher 3) ''ABCDEF'' Encrypt first len)
     (task_args (length ''ABCDEF''))
   = [Inr ''D'', Inr ''E'', Inr ''G'', Inr ''HI'']"
proof -
  have "length ''ABCDEF'' = 6" by simp
  then have "task_args (length ''ABCDEF'') = [(0, 1), (1, 1), (3, 1), (4, 3)]"
    by (simp only: task_args_6)
  then show ?thesis
    by (simp add: fn_def substr_def CaesarCipher_def caesar_shift_def caesar_char_def
        isupper_def islower_def char_of_eq_iff)
qed

lemma dispatch_6:
  "finished (process_text (CaesarCipher 3) Caesar Encrypt ''ABCDEF'' (\<lambda>j k. ready))
   = Some ([], Inr ''DEGHI'')"
  by (simp add: process_text_def Let_def futures_6 collect_all_ready
      del: length_Cons list.size)

section \<open>How much of the text the ranges cover\<close>

lemma three_quarters: "(3 * n) div 4 = 3 * (n div 4) + (3 * (n mod 4)) div (4::nat)"
proof -
  have "3 * n = 3 * (n mod 4) + 4 * (3 * (n div 4))"
    using mult_div_mod_eq [of 4 n] by linarith
  then have "(3 * n) div 4 = (3 * (n mod 4) + 4 * (3 * (n div 4))) div 4" by simp
  also have "\<dots> = 3 * (n div 4) + (3 * (n mod 4)) div 4" by (simp only: div_mult_self2)
  finally show ?thesis .
qed

lemma two_quarters: "(2 * n) div 4 = 2 * (n div 4) + (2 * (n mod 4)) div (4::nat)"
proof -
  have "2 * n = 2 * (n mod 4) + 4 * (2 * (n div 4))"
    using mult_div_mod_eq [of 4 n] by linarith
  then have "(2 * n) div 4 = (2 * (n mod 4) + 4 * (2 * (n div 4))) div 4" by simp
  also have "\<dots> = 2 * (n div 4) + (2 * (n mod 4)) div 4" by (simp only: div_mult_self2)
  finally show ?thesis .
qed

lemma shortfall_linear:
  "n = 4 * q + r \<Longrightarrow> t = 3 * q + d \<Longrightarrow> d \<le> r \<Longrightarrow>
   n - t \<le> q + r \<and> 3 * q + (n - t) = n - (d::nat)"
  by linarith

lemma shortfall_arith:
  "(n::nat) - 3 * n div 4 \<le> n div 4 + n mod 4
   \<and> 3 * (n div 4) + (n - 3 * n div 4) = n - 3 * (n mod 4) div 4"
proof (rule shortfall_linear)
  show "n = 4 * (n div 4) + n mod 4" by simp
  show "3 * n div 4 = 3 * (n div 4) + 3 * (n mod 4) div 4" by (rule three_quarters)
  have "3 * (n mod 4) div 4 \<le> 4 * (n mod 4) div 4" by (rule div_le_mono) simp
  then show "3 * (n mod 4) div 4 \<le> n mod 4" by simp
qed

lemma task_args_list:
  "task_args n = [(seg_first 0 n, seg_len 0 n), (seg_first 1 n, seg_len 1 n),
                  (seg_first 2 n, seg_len 2 n), (seg_first 3 n, seg_len 3 n)]"
proof -
  have "[0..<4] = [0, 1, 2, 3::nat]" by (simp add: upt_rec)
  then show ?thesis by (simp add: task_args_def numThreads_def)
qed

lemma substr_in_range: "pos \<le> length s \<Longrightarrow> substr s pos n = Inr (take n (drop pos s))"
  by (simp add: substr_def)

lemma segments_list:
  "segments T = [Inr (take (seg_len 0 (length T)) (drop (seg_first 0 (length T)) T)),
                 Inr (take (seg_len 1 (length T)) (drop (seg_first 1 (length T)) T)),
                 Inr (take (seg_len 2 (length T)) (drop (seg_first 2 (length T)) T)),
                 Inr (take (seg_len 3 (length T)) (drop (seg_first 3 (length T)) T))]"
  by (simp add: segments_def task_args_list substr_in_range seg_first_le)

lemma inner_segment_length:
  assumes "3 * length T < 2 ^ 64" and "i < 3"
  shows "length (take (seg_len i (length T)) (drop (seg_first i (length T)) T)) = length T div 4"
proof -
  from assms have "seg_first i (length T) + seg_len i (length T) \<le> seg_first (Suc i) (length T)"
    by (rule seg_consecutive)
  moreover from assms(2) have "seg_first (Suc i) (length T) \<le> length T"
    by (simp add: seg_first_le)
  ultimately have "seg_len i (length T) \<le> length T - seg_first i (length T)" by simp
  with assms(2) show ?thesis by (simp add: seg_len_inner)
qed

lemma last_segment_length:
  assumes "3 * length T < 2 ^ 64"
  shows "length (take (seg_len 3 (length T)) (drop (seg_first 3 (length T)) T))
         = length T - 3 * length T div 4"
proof -
  have "length T - 3 * length T div 4 \<le> length T div 4 + length T mod 4"
    using shortfall_arith [of "length T"] by (rule conjunct1)
  with assms show ?thesis by (simp add: seg_first_exact seg_len_def numThreads_def)
qed

text \<open>
  The ranges in order give a text that is shorter than the input by
  \<open>3 * (len mod 4) div 4\<close> characters: by none when \<open>len mod 4\<close> is 0 or 1, by
  one when it is 2, by two when it is 3.
\<close>

lemma segments_shortfall:
  assumes len: "3 * length T < 2 ^ 64"
  shows "\<exists>out. get_all (segments T) [] = Inr out
           \<and> length out = length T - 3 * (length T mod 4) div 4"
proof -
  let ?s = "\<lambda>i. take (seg_len i (length T)) (drop (seg_first i (length T)) T)"
  have "get_all (segments T) [] = Inr (?s 0 @ ?s 1 @ ?s 2 @ ?s 3)"
    by (simp add: segments_list)
  moreover have "length (?s 0 @ ?s 1 @ ?s 2 @ ?s 3)
      = length (?s 0) + (length (?s 1) + (length (?s 2) + length (?s 3)))"
    by (simp only: length_append)
  moreover have "length (?s 0) = length T div 4" and "length (?s 1) = length T div 4"
    and "length (?s 2) = length T div 4"
    using inner_segment_length [OF len] by simp_all
  moreover have "length (?s 3) = length T - 3 * length T div 4"
    by (rule last_segment_length [OF len])
  moreover have "length T div 4 + (length T div 4 + (length T div 4 + (length T - 3 * length T div 4)))
      = 3 * (length T div 4) + (length T - 3 * length T div 4)"
    by simp
  moreover have "3 * (length T div 4) + (length T - 3 * length T div 4)
      = length T - 3 * (length T mod 4) div 4"
    using shortfall_arith [of "length T"] by (rule conjunct2)
  ultimately show ?thesis by (simp only: sum.inject) blast
qed

lemma take_then_drop: "take a (drop k xs) @ drop (k + a) xs = drop k xs"
  by (metis add.commute append_take_drop_id drop_drop)

text \<open>When \<open>len mod 4\<close> is 0 or 1 the ranges in order are the input text.\<close>

lemma segments_exact:
  assumes r: "length T mod 4 < 2" and len: "3 * length T < 2 ^ 64"
  shows "get_all (segments T) [] = Inr T"
proof -
  let ?n = "length T" and ?q = "length T div 4"
  from r have "2 * (?n mod 4) div 4 = 0" and "3 * (?n mod 4) div 4 = 0" by simp_all
  with two_quarters [of ?n] three_quarters [of ?n]
  have "2 * ?n div 4 = ?q + ?q" and "3 * ?n div 4 = ?q + ?q + ?q" by simp_all
  with len have f: "seg_first 0 ?n = 0" "seg_first 1 ?n = ?q" "seg_first 2 ?n = ?q + ?q"
    "seg_first 3 ?n = ?q + ?q + ?q"
    by (simp_all add: seg_first_exact)
  have l: "seg_len 0 ?n = ?q" "seg_len 1 ?n = ?q" "seg_len 2 ?n = ?q"
    "seg_len 3 ?n = ?q + ?n mod 4"
    by (simp_all add: seg_len_def numThreads_def)
  have "?n = 4 * ?q + ?n mod 4" by simp
  then have "length (drop (?q + ?q + ?q) T) \<le> ?q + ?n mod 4" by (simp only: length_drop)
  then have last: "take (?q + ?n mod 4) (drop (?q + ?q + ?q) T) = drop (?q + ?q + ?q) T"
    by (rule take_all)
  have "take ?q T @ take ?q (drop ?q T) @ take ?q (drop (?q + ?q) T) @ drop (?q + ?q + ?q) T = T"
    using take_then_drop [of ?q "?q + ?q" T] take_then_drop [of ?q ?q T]
    by (simp add: add.assoc)
  then show ?thesis
    by (simp only: segments_list f l last get_all.simps append_Nil append_assoc drop_0)
qed

text \<open>
  The same for the Caesar dispatch: its futures are the cipher applied to the ranges, so
  the assembled text is the cipher applied to what the ranges give in order.
\<close>

lemma futures_of_segments:
  "map (\<lambda>(first, len). fn cipher T m first len) (task_args (length T))
   = map (\<lambda>seg. case seg of Inl e \<Rightarrow> Inl e | Inr s \<Rightarrow> cipher s m) (segments T)"
  by (simp add: segments_def fn_def case_prod_unfold)

lemma get_all_caesar:
  "get_all (map (\<lambda>seg. case seg of Inl e \<Rightarrow> Inl e | Inr s \<Rightarrow> CaesarCipher key s m) segs)
     (map (caesar_char (caesar_shift key m)) acc)
   = (case get_all segs acc of
        Inl e \<Rightarrow> Inl e
      | Inr out \<Rightarrow> Inr (map (caesar_char (caesar_shift key m)) out))"
proof (induction segs arbitrary: acc)
  case Nil
  show ?case by simp
next
  case (Cons seg segs)
  show ?case
  proof (cases seg)
    case (Inl e)
    then show ?thesis by simp
  next
    case (Inr s)
    with Cons.IH [of "acc @ s"] show ?thesis by (simp add: CaesarCipher_def)
  qed
qed

lemma caesar_dispatch:
  "finished (process_text (CaesarCipher key) Caesar m T (\<lambda>j k. ready))
   = Some ([], case get_all (segments T) [] of
                 Inl e \<Rightarrow> Inl e
               | Inr out \<Rightarrow> Inr (map (caesar_char (caesar_shift key m)) out))"
proof -
  have "finished (process_text (CaesarCipher key) Caesar m T (\<lambda>j k. ready))
      = Some ([], get_all (map (\<lambda>seg. case seg of Inl e \<Rightarrow> Inl e
                                      | Inr s \<Rightarrow> CaesarCipher key s m) (segments T)) [])"
    by (simp add: process_text_def Let_def collect_all_ready futures_of_segments)
  with get_all_caesar [of key m "segments T" "[]"] show ?thesis by simp
qed

text \<open>
  With every future ready at once, the Caesar dispatch returns what the cipher returns
  on the whole text when \<open>len mod 4\<close> is 0 or 1, and in every case a text that is
  \<open>3 * (len mod 4) div 4\<close> characters shorter than the input.
\<close>

lemma caesar_dispatch_exact:
  assumes "length T mod 4 < 2" and "3 * length T < 2 ^ 64"
  shows "finished (process_text (CaesarCipher key) Caesar m T (\<lambda>j k. ready))
         = Some ([], CaesarCipher key T m)"
  using segments_exact [OF assms] by (simp add: caesar_dispatch CaesarCipher_def)

lemma caesar_dispatch_shortfall:
  assumes "3 * length T < 2 ^ 64"
  shows "\<exists>out. finished (process_text (CaesarCipher key) Caesar m T (\<lambda>j k. ready))
               = Some ([], Inr out)
           \<and> length out = length T - 3 * (length T mod 4) div 4"
proof -
  from segments_shortfall [OF assms] obtain out
    where "get_all (segments T) [] = Inr out"
      and "length out = length T - 3 * (length T mod 4) div 4"
    by blast
  then show ?thesis by (simp add: caesar_dispatch)
qed

text \<open>
  The example of the specification, section 8: shift 3 turns \<open>HELLO\<close> into \<open>KHOOR\<close>
  and back; the text has five letters, and the dispatch returns the same.
\<close>

lemma caesar_HELLO: "CaesarCipher 3 ''HELLO'' Encrypt = Inr ''KHOOR''"
  by (simp add: CaesarCipher_def caesar_shift_def caesar_char_def isupper_def islower_def
      char_of_eq_iff)

lemma caesar_KHOOR: "CaesarCipher 3 ''KHOOR'' Decrypt = Inr ''HELLO''"
  by (simp add: CaesarCipher_def caesar_shift_def caesar_char_def isupper_def islower_def
      char_of_eq_iff)

lemma dispatch_HELLO:
  "finished (process_text (CaesarCipher 3) Caesar Encrypt ''HELLO'' (\<lambda>j k. ready))
   = Some ([], Inr ''KHOOR'')"
proof -
  have "length ''HELLO'' mod 4 < 2" and "3 * length ''HELLO'' < 2 ^ 64" by simp_all
  then have "finished (process_text (CaesarCipher 3) Caesar Encrypt ''HELLO'' (\<lambda>j k. ready))
      = Some ([], CaesarCipher 3 ''HELLO'' Encrypt)"
    by (rule caesar_dispatch_exact)
  then show ?thesis by (simp only: caesar_HELLO)
qed

section \<open>The ciphers of the factory never fail on letters\<close>

lemma in_alphabet25:
  "c \<in> set alphabet25 \<longleftrightarrow>
     65 \<le> (of_char c :: nat) \<and> (of_char c :: nat) \<le> 90 \<and> (of_char c :: nat) \<noteq> 74"
proof
  assume "c \<in> set alphabet25"
  then have "c \<in> char_of ` {n \<in> {65..<91 :: nat}. n \<noteq> 74}"
    unfolding alphabet25_def set_map set_filter set_upt .
  then obtain n :: nat where n: "65 \<le> n" "n < 91" "n \<noteq> 74" "c = char_of n"
    by auto
  then have "(of_char c :: nat) = n" by simp
  with n show "65 \<le> (of_char c :: nat) \<and> (of_char c :: nat) \<le> 90 \<and> (of_char c :: nat) \<noteq> 74"
    by simp
next
  assume a: "65 \<le> (of_char c :: nat) \<and> (of_char c :: nat) \<le> 90 \<and> (of_char c :: nat) \<noteq> 74"
  have "(of_char c :: nat) \<in> set (filter (\<lambda>n. n \<noteq> 74) [65..<91])"
    unfolding set_filter set_upt using a by simp
  then have "char_of (of_char c :: nat) \<in> set alphabet25"
    unfolding alphabet25_def set_map by (rule imageI)
  then show "c \<in> set alphabet25" by simp
qed

lemma alphabet25_letters: "alphabet25 = ''ABCDEFGHIKLMNOPQRSTUVWXYZ''"
  by (simp add: alphabet25_def upt_rec char_of_eq_iff)

lemma distinct_alphabet25: "distinct alphabet25"
  by (simp add: alphabet25_letters)

lemma length_alphabet25: "length alphabet25 = 25"
  by (simp add: alphabet25_letters)

lemma toupper_code:
  "isalpha c \<Longrightarrow> 65 \<le> (of_char (toupper c) :: nat) \<and> (of_char (toupper c) :: nat) \<le> 90"
  by (auto simp: toupper_def isalpha_def isupper_def islower_def)

lemma merge_ij_in_alphabet25:
  assumes "65 \<le> (of_char c :: nat)" and "(of_char c :: nat) \<le> 90"
  shows "merge_ij c \<in> set alphabet25"
proof (cases "c = CHR ''J''")
  case True
  then show ?thesis by (simp add: merge_ij_def in_alphabet25)
next
  case False
  have "(of_char c :: nat) \<noteq> 74"
  proof
    assume "(of_char c :: nat) = 74"
    then have "char_of (of_char c :: nat) = char_of (74 :: nat)" by simp
    then have "c = CHR ''J''" by (simp add: char_of_eq_iff)
    with False show False by simp
  qed
  with assms False show ?thesis by (simp add: merge_ij_def in_alphabet25)
qed

lemma letter_in_alphabet25: "isalpha c \<Longrightarrow> (merge_ij \<circ> toupper) c \<in> set alphabet25"
  using toupper_code [of c] merge_ij_in_alphabet25 [of "toupper c"] by simp

lemma filler_in_alphabet25: "filler c \<in> set alphabet25"
  by (simp add: filler_def in_alphabet25)

lemma set_foldl_place: "set (foldl place acc xs) = set acc \<union> set xs"
  by (induction xs arbitrary: acc) (auto simp: place_def)

lemma distinct_foldl_place: "distinct acc \<Longrightarrow> distinct (foldl place acc xs)"
  by (induction xs arbitrary: acc) (auto simp: place_def)

lemma set_playfair_key: "set (playfair_key key) \<subseteq> set alphabet25"
  using letter_in_alphabet25 by (auto simp: playfair_key_def)

text \<open>
  The square of any key holds each of the 25 letters exactly once (specification,
  section 8).
\<close>

lemma set_playfair_square: "set (playfair_square key) = set alphabet25"
  using set_playfair_key [of key] by (auto simp: playfair_square_def set_foldl_place)

lemma distinct_playfair_square: "distinct (playfair_square key)"
  by (simp add: playfair_square_def distinct_foldl_place)

lemma length_playfair_square: "length (playfair_square key) = 25"
proof -
  have "length (playfair_square key) = card (set (playfair_square key))"
    using distinct_playfair_square by (simp add: distinct_card)
  also have "\<dots> = card (set alphabet25)" by (simp only: set_playfair_square)
  also have "\<dots> = length alphabet25" using distinct_alphabet25 by (rule distinct_card)
  finally show ?thesis by (simp only: length_alphabet25)
qed

lemma index_of_Some: "c \<in> set xs \<Longrightarrow> \<exists>i<length xs. index_of c xs = Some i"
  by (induction xs) auto

lemma position_ok:
  assumes "c \<in> set square" and "length square = 25"
  shows "\<exists>row col. position square c = Inr (row, col) \<and> row < 5 \<and> col < 5"
proof -
  from assms obtain i where i: "i < 25" "index_of c square = Some i"
    using index_of_Some [of c square] by auto
  from i(1) have "i div 5 < 5" by simp
  with i(2) show ?thesis by (simp add: position_def)
qed

lemma letter_at_ok:
  "length square = 25 \<Longrightarrow> row < 5 \<Longrightarrow> col < 5 \<Longrightarrow> \<exists>x. letter_at square row col = Inr x"
  by (simp add: letter_at_def)

lemma step_less: "step mode x < 5"
  by (simp add: step_def)

lemma substitute_ok:
  assumes a: "a \<in> set square" and b: "b \<in> set square" and len: "length square = 25"
  shows "\<exists>x y. substitute square mode a b = Inr (x, y)"
proof -
  from position_ok [OF a len] obtain r1 c1
    where p1: "position square a = Inr (r1, c1)" and r1: "r1 < 5" and c1: "c1 < 5" by blast
  from position_ok [OF b len] obtain r2 c2
    where p2: "position square b = Inr (r2, c2)" and r2: "r2 < 5" and c2: "c2 < 5" by blast
  define target where "target =
      (if r1 = r2 then ((r1, step mode c1), (r2, step mode c2))
       else if c1 = c2 then ((step mode r1, c1), (step mode r2, c2))
       else ((r1, c2), (r2, c1)))"
  have "fst (fst target) < 5" and "snd (fst target) < 5"
    and "fst (snd target) < 5" and "snd (snd target) < 5"
    using r1 c1 r2 c2 by (simp_all add: target_def step_less)
  then obtain x y where "letter_at square (fst (fst target)) (snd (fst target)) = Inr x"
    and "letter_at square (fst (snd target)) (snd (snd target)) = Inr y"
    using letter_at_ok [OF len] by blast
  with p1 p2 show ?thesis by (simp add: substitute_def target_def [symmetric])
qed

lemma playfair_pairs_ok:
  "set xs \<subseteq> set square \<Longrightarrow> length square = 25 \<Longrightarrow>
   \<exists>t. playfair_pairs square mode xs = Inr t"
proof (induction square mode xs rule: playfair_pairs.induct)
  case (1 square mode)
  show ?case by simp
next
  case (2 square mode a)
  show ?case by simp
next
  case (3 square mode a b rest)
  from "3.prems" have "a \<in> set square" and "b \<in> set square" by simp_all
  with "3.prems"(2) obtain x y where s: "substitute square mode a b = Inr (x, y)"
    using substitute_ok by blast
  from "3.prems" have rest: "set rest \<subseteq> set square" by simp
  from "3.IH" [OF s refl rest "3.prems"(2)]
  obtain t where "playfair_pairs square mode rest = Inr t" by blast
  with s show ?case by simp
qed

lemma set_prepare: "set xs \<subseteq> set alphabet25 \<Longrightarrow> set (prepare xs) \<subseteq> set alphabet25"
  by (induction xs rule: prepare.induct) (simp_all add: filler_in_alphabet25)

lemma playfair_total:
  assumes "letters_only T"
  shows "\<exists>t. PlayfairCipher (playfair_square key) T m = Inr t"
proof -
  let ?letters = "map (merge_ij \<circ> toupper) T"
  from assms have l: "set ?letters \<subseteq> set alphabet25"
    using letter_in_alphabet25 by (auto simp: letters_only_def list_all_iff)
  then have "set (prepare ?letters) \<subseteq> set alphabet25" by (rule set_prepare)
  with l have "set (if m = Encrypt then prepare ?letters else ?letters)
      \<subseteq> set (playfair_square key)"
    by (simp add: set_playfair_square)
  then show ?thesis
    unfolding PlayfairCipher_def Let_def
    by (rule playfair_pairs_ok) (rule length_playfair_square)
qed

lemma vigenere_total: "ks \<noteq> [] \<Longrightarrow> \<exists>t. vigenere_text ks m j T = Inr t"
proof (induction T arbitrary: j)
  case Nil
  show ?case by simp
next
  case (Cons c cs)
  from Cons.IH [OF Cons.prems] obtain t1 where "vigenere_text ks m (Suc j) cs = Inr t1"
    by blast
  moreover from Cons.IH [OF Cons.prems] obtain t2 where "vigenere_text ks m j cs = Inr t2"
    by blast
  ultimately show ?case using Cons.prems by (simp add: key_at_def)
qed

text \<open>
  Every cipher that the factory constructs returns a text on every text of letters.
\<close>

lemma factory_cipher_total:
  assumes "cipherFactory_model type key = Inr (Some cipher)" and "letters_only T"
  shows "\<exists>t. cipher T m = Inr t"
proof (cases type)
  case Caesar
  with assms(1) obtain k where "cipher = CaesarCipher k"
    by (auto simp: cipherFactory_model_def split: option.splits)
  then show ?thesis by (simp add: caesar_total)
next
  case Playfair
  with assms(1) have "cipher = PlayfairCipher (playfair_square key)"
    by (auto simp: cipherFactory_model_def split: if_splits)
  with assms(2) show ?thesis by (simp add: playfair_total)
next
  case Vigenere
  with assms(1) have "cipher = VigenereCipher (vigenere_key key)" and "vigenere_key key \<noteq> []"
    by (auto simp: cipherFactory_model_def split: if_splits)
  then show ?thesis by (simp add: VigenereCipher_def vigenere_total)
qed

text \<open>
  The models on examples: the square of the key \<open>playfair example\<close>, the digraphs of
  \<open>HELLO\<close> and \<open>ABC\<close> (specification, section 8), the Playfair encryption of \<open>hello\<close>
  and the decryption of the result, and the Vigenere encryption of \<open>ATTACKATDAWN\<close> with
  the key \<open>LEMON\<close>.
\<close>

lemma playfair_square_example:
  "playfair_square ''playfair example'' = ''PLAYFIREXMBCDGHKNOQSTUVWZ''"
  by (simp add: playfair_square_def playfair_key_def place_def alphabet25_def upt_rec
      toupper_def merge_ij_def isalpha_def isupper_def islower_def char_of_eq_iff)

lemma prepare_examples: "prepare ''HELLO'' = ''HELXLO''" "prepare ''ABC'' = ''ABCX''"
  by (simp_all add: filler_def)

lemma playfair_pairs_example:
  "playfair_pairs ''PLAYFIREXMBCDGHKNOQSTUVWZ'' Encrypt ''HELXLO'' = Inr ''DMYRAN''"
  "playfair_pairs ''PLAYFIREXMBCDGHKNOQSTUVWZ'' Decrypt ''DMYRAN'' = Inr ''HELXLO''"
  by (simp_all add: substitute_def position_def letter_at_def step_def)

lemma playfair_encrypt_example:
  "PlayfairCipher ''PLAYFIREXMBCDGHKNOQSTUVWZ'' ''hello'' Encrypt = Inr ''DMYRAN''"
proof -
  have "map (merge_ij \<circ> toupper) ''hello'' = ''HELLO''"
    by (simp add: toupper_def merge_ij_def islower_def char_of_eq_iff)
  then show ?thesis
    unfolding PlayfairCipher_def Let_def
    by (simp only: prepare_examples playfair_pairs_example simp_thms if_True)
qed

lemma playfair_decrypt_example:
  "PlayfairCipher ''PLAYFIREXMBCDGHKNOQSTUVWZ'' ''DMYRAN'' Decrypt = Inr ''HELXLO''"
proof -
  have "map (merge_ij \<circ> toupper) ''DMYRAN'' = ''DMYRAN''"
    by (simp add: toupper_def merge_ij_def islower_def)
  then show ?thesis
    unfolding PlayfairCipher_def Let_def
    by (simp only: playfair_pairs_example CipherMode.distinct simp_thms if_False)
qed

lemma vigenere_example:
  "VigenereCipher (vigenere_key ''LEMON'') ''ATTACKATDAWN'' Encrypt = Inr ''LXFOPVEFRNHR''"
  by (simp add: VigenereCipher_def vigenere_key_def letter_index_def key_at_def
      caesar_char_def isalpha_def isupper_def islower_def char_of_eq_iff)

lemma vigenere_decrypt_example:
  "VigenereCipher (vigenere_key ''LEMON'') ''LXFOPVEFRNHR'' Decrypt = Inr ''ATTACKATDAWN''"
  by (simp add: VigenereCipher_def vigenere_key_def letter_index_def key_at_def
      caesar_char_def isalpha_def isupper_def islower_def char_of_eq_iff)

lemma factory_examples:
  "cipherFactory_model Caesar ''abc'' = Inl (InvalidKey ''the Caesar key must be an integer'')"
  "cipherFactory_model Playfair '''' = Inl (InvalidKey ''the Playfair key has no letter'')"
  "cipherFactory_model Vigenere ''123'' = Inl (InvalidKey ''the Vigenere key has no letter'')"
  "cipherFactory_model Caesar ''3'' = Inr (Some (CaesarCipher 3))"
  by (simp_all add: cipherFactory_model_def parse_int_def parse_nat_def isdigit_def
      playfair_key_def vigenere_key_def isalpha_def isupper_def islower_def)

section \<open>The paths through the main function\<close>

lemma read_input_None:
  "read_input E s = None \<longleftrightarrow> inputFile s \<noteq> [] \<and> ifstream E (inputFile s) = None"
  by (simp add: read_input_def split: option.splits)

lemmas path_defs =
  help_requested_def version_requested_def text_written_def missing_argument_def
  unknown_argument_def unreadable_input_def invalid_key_def null_cipher_def
  unwritable_output_def processed_def constructed_def proceeds_def

section \<open>The claims\<close>

text \<open>
  C1. The results of the four tasks, concatenated in index order, should be what
  \<^verbatim>\<open>applyCipher\<close> returns on the whole text. At the input \<open>ABCDEF\<close> with the
  Caesar cipher of shift 3 they are not: the dispatch returns \<open>DEGHI\<close>, the cipher
  applied to the whole text returns \<open>DEFGHI\<close>.
\<close>

theorem caesar_dispatch_drops_a_letter:
  "finished (process_text (CaesarCipher 3) Caesar Encrypt ''ABCDEF'' (\<lambda>j k. ready))
     = Some ([], Inr ''DEGHI'')
   \<and> CaesarCipher 3 ''ABCDEF'' Encrypt = Inr ''DEFGHI''"
  using dispatch_6 caesar_ABCDEF by (rule conjI)

text \<open>
  C2. The four ranges should be contiguous and, concatenated in order, give back the
  input. At the input \<open>ABCDEF\<close> they do not: the ranges are \<open>A\<close>, \<open>B\<close>, \<open>D\<close> and
  \<open>EF\<close>. The third range starts at \<open>2 * 6 div 4 = 3\<close> while the second ends at \<open>2\<close>,
  so the letter \<open>C\<close> is in no range and the ranges in order give \<open>ABDEF\<close>.
\<close>

theorem segments_leave_a_gap:
  "segments ''ABCDEF'' = [Inr ''A'', Inr ''B'', Inr ''D'', Inr ''EF'']
   \<and> get_all (segments ''ABCDEF'') [] = Inr ''ABDEF''"
  by (simp add: segments_6)

text \<open>
  C3. When the command line was processed, neither help nor version was asked for, the
  input was read and the factory throws \<open>InvalidKey\<close>, then \<^verbatim>\<open>main\<close> returns 1,
  has written to the error stream the text of the exception as the factory gave it,
  after the prefix \<^verbatim>\<open>[error] Invalid key: \<close>, and has written no output, neither to
  the standard output nor to a file.
\<close>

theorem invalid_key_ends_main:
  "processCommandLine E args initial_settings = Inr s \<Longrightarrow>
   \<not> helpRequested s \<Longrightarrow> \<not> versionRequested s \<Longrightarrow>
   read_input E s = Some text \<Longrightarrow>
   cipherFactory E (cipherType s) (cipherKey s) = Inl (InvalidKey what) \<Longrightarrow>
   main E args = Some \<lparr> status = Return 1, cout = [],
      cerr = ''[error] Invalid key: '' @ what @ endl, outfile = None \<rparr>"
  by (simp add: main_def run_cipher_def)

theorem invalid_key_ends_main_witness:
  "main invalid_key_run [''mpags-cipher'', ''-k'', ''abc'']
   = Some \<lparr> status = Return 1, cout = [],
       cerr = ''[error] Invalid key: '' @ ''the key is not a number'' @ endl, outfile = None \<rparr>"
proof (rule invalid_key_ends_main)
  show "processCommandLine invalid_key_run [''mpags-cipher'', ''-k'', ''abc''] initial_settings
        = Inr (initial_settings\<lparr>cipherKey := ''abc''\<rparr>)"
    by (simp add: invalid_key_run_def example_run_def)
  show "\<not> helpRequested (initial_settings\<lparr>cipherKey := ''abc''\<rparr>)"
    by (simp add: initial_settings_def)
  show "\<not> versionRequested (initial_settings\<lparr>cipherKey := ''abc''\<rparr>)"
    by (simp add: initial_settings_def)
  show "read_input invalid_key_run (initial_settings\<lparr>cipherKey := ''abc''\<rparr>) = Some ''HELLO''"
    by (simp add: read_input_def invalid_key_run_def example_run_def initial_settings_def
        isspace_def)
  show "cipherFactory invalid_key_run (cipherType (initial_settings\<lparr>cipherKey := ''abc''\<rparr>))
          (cipherKey (initial_settings\<lparr>cipherKey := ''abc''\<rparr>))
        = Inl (InvalidKey ''the key is not a number'')"
    by (simp add: invalid_key_run_def example_run_def)
qed

text \<open>
  C4. The output of the Caesar cipher, also when the dispatch assembles it, should have
  the length of the input. In the run \<^verbatim>\<open>mpags-cipher -k 3\<close> on the six letters
  \<open>ABCDEF\<close> it has not: the program ends with exit code 0 and has printed the five
  letters \<open>DEGHI\<close>.
\<close>

theorem caesar_output_shorter_than_input:
  "main (caesar_run ''ABCDEF'') [''mpags-cipher'', ''-k'', ''3'']
   = Some \<lparr> status = Return 0, cout = ''DEGHI'' @ endl, cerr = [], outfile = None \<rparr>"
proof -
  have "read_input (caesar_run ''ABCDEF'') (initial_settings\<lparr>cipherKey := ''3''\<rparr>)
        = Some ''ABCDEF''"
    by (simp add: read_input_def caesar_run_def example_run_def initial_settings_def isspace_def)
  moreover have "run_cipher (caesar_run ''ABCDEF'') (initial_settings\<lparr>cipherKey := ''3''\<rparr>)
        ''ABCDEF''
      = Some \<lparr> status = Return 0, cout = ''DEGHI'' @ endl, cerr = [], outfile = None \<rparr>"
    by (simp add: run_cipher_def caesar_run_def example_run_def initial_settings_def dispatch_6
        write_output_def)
  ultimately show ?thesis
    by (simp add: main_def caesar_run_def example_run_def initial_settings_def)
qed

text \<open>
  C5. For the Caesar cipher \<^verbatim>\<open>main\<close> launches exactly four tasks by
  \<^verbatim>\<open>std::async\<close>, one for each range of the input text, makes no call of
  \<^verbatim>\<open>applyCipher\<close> itself, and its result is what the collection gets from the
  futures of exactly these tasks, each of them \<^verbatim>\<open>fn\<close> on its range. For the
  Playfair and the Vigenere cipher no task is launched, \<^verbatim>\<open>main\<close> calls
  \<^verbatim>\<open>applyCipher\<close> once, on the whole input text, and the result is what this call
  returns, with no wait.
\<close>

theorem dispatch_only_for_caesar:
  "launched (process_text c Caesar m T polls)
     = [(seg_first 0 (length T), seg_len 0 (length T)),
        (seg_first 1 (length T), seg_len 1 (length T)),
        (seg_first 2 (length T), seg_len 2 (length T)),
        (seg_first 3 (length T), seg_len 3 (length T))]
   \<and> length (launched (process_text c Caesar m T polls)) = 4
   \<and> direct (process_text c Caesar m T polls) = []
   \<and> finished (process_text c Caesar m T polls)
       = collect polls 0
           (map (\<lambda>(first, len). fn c T m first len)
              (launched (process_text c Caesar m T polls))) [] []
   \<and> launched (process_text c Playfair m T polls) = []
   \<and> direct (process_text c Playfair m T polls) = [T]
   \<and> finished (process_text c Playfair m T polls) = Some ([], c T m)
   \<and> launched (process_text c Vigenere m T polls) = []
   \<and> direct (process_text c Vigenere m T polls) = [T]
   \<and> finished (process_text c Vigenere m T polls) = Some ([], c T m)"
proof -
  have caesar: "process_text c Caesar m T polls
      = \<lparr> launched = task_args (length T), direct = [],
          finished = collect polls 0
            (map (\<lambda>(first, len). fn c T m first len) (task_args (length T))) [] [] \<rparr>"
    by (simp add: process_text_def Let_def)
  have other: "process_text c Playfair m T polls
        = \<lparr> launched = [], direct = [T], finished = Some ([], c T m) \<rparr>"
    "process_text c Vigenere m T polls
        = \<lparr> launched = [], direct = [T], finished = Some ([], c T m) \<rparr>"
    by (simp_all add: process_text_def)
  show ?thesis
    unfolding caesar other by (simp add: task_args_list)
qed

text \<open>
  C6. However often a poll times out before it returns \<open>ready\<close>, the loop on a future
  goes on, prints one line per time-out and ends at the first \<open>ready\<close>. When every
  future is ready at some poll, the collection ends with the results of all futures in
  index order, as if no poll had timed out; and whenever the collection ends with a
  text, every future has been seen ready and the text holds the result of each of them:
  none was given up.
\<close>

theorem polling_never_abandons:
  "((\<forall>n<k. p n = timeout) \<and> p k = ready \<longrightarrow>
      wait_until_ready p 0 c = Some (c @ concat (replicate k (''waiting... '' @ endl))))
   \<and> ((\<forall>j<length futures. \<exists>n. polls j n = ready) \<longrightarrow>
      (\<exists>printed. collect polls 0 futures [] [] = Some (printed, get_all futures [])))
   \<and> (\<forall>printed text. collect polls 0 futures [] [] = Some (printed, Inr text) \<longrightarrow>
      (\<forall>j<length futures. \<exists>n. polls j n = ready) \<and> get_all futures [] = Inr text)"
proof (intro conjI impI allI)
  assume "(\<forall>n<k. p n = timeout) \<and> p k = ready"
  then show "wait_until_ready p 0 c = Some (c @ concat (replicate k (''waiting... '' @ endl)))"
    using wait_timeouts [of 0 k p c] by simp
next
  assume "\<forall>j<length futures. \<exists>n. polls j n = ready"
  then show "\<exists>printed. collect polls 0 futures [] [] = Some (printed, get_all futures [])"
    using collect_returns [of futures polls 0 "[]" "[]"] by simp
next
  fix printed out
  assume c: "collect polls 0 futures [] [] = Some (printed, Inr out)"
  from collect_Inr[OF c] show "get_all futures [] = Inr out" by simp
next
  fix printed out and j :: nat
  assume c: "collect polls 0 futures [] [] = Some (printed, Inr out)"
    and j: "j < length futures"
  from collect_Inr[OF c] j show "\<exists>n. polls j n = ready" by simp
qed

theorem polling_never_abandons_witness:
  "wait_until_ready (one_timeout 0) 0 [] = Some (''waiting... '' @ endl)
   \<and> (\<exists>printed. collect one_timeout 0 [Inr ''D'', Inr ''E''] [] [] = Some (printed, Inr ''DE''))"
proof -
  have "(\<forall>n<1. one_timeout 0 n = timeout) \<and> one_timeout 0 1 = ready"
    by (simp add: one_timeout_def)
  with polling_never_abandons [of 1 "one_timeout 0" "[]"]
  have a: "wait_until_ready (one_timeout 0) 0 [] = Some (''waiting... '' @ endl)"
    by simp
  have "\<forall>j<length [Inr ''D'', Inr ''E'' :: exn + string]. \<exists>n. one_timeout j n = ready"
    by (auto simp: one_timeout_def)
  with polling_never_abandons [of _ _ _ "[Inr ''D'', Inr ''E'']" one_timeout]
  have "\<exists>printed. collect one_timeout 0 [Inr ''D'', Inr ''E''] [] []
        = Some (printed, get_all [Inr ''D'', Inr ''E''] [])"
    by blast
  then have "\<exists>printed. collect one_timeout 0 [Inr ''D'', Inr ''E''] [] [] = Some (printed, Inr ''DE'')"
    by simp
  with a show ?thesis by (rule conjI)
qed

text \<open>
  C7. The factory and the three ciphers are modelled from the specification. Every
  cipher that the factory constructs returns a text on every text of letters only, in
  either mode: the lookups of the Playfair square and of the Vigenere key cannot fail
  on it. Every one of the four worker calls of the dispatch on such a text returns a
  text as well; so the processing of the text, dispatched or not, never ends with an
  exception, and it ends with a text when every future is ready at some poll.
\<close>

theorem constructed_cipher_never_fails:
  assumes built: "cipherFactory_model type key = Inr (Some cipher)"
    and T: "letters_only T"
  shows "(\<exists>t. cipher T m = Inr t)
         \<and> (\<forall>i<numThreads. \<exists>t.
               fn cipher T m (seg_first i (length T)) (seg_len i (length T)) = Inr t)
         \<and> (\<forall>printed r. finished (process_text cipher type m T polls) = Some (printed, r)
               \<longrightarrow> (\<exists>t. r = Inr t))
         \<and> ((\<forall>j<numThreads. \<exists>n. polls j n = ready) \<longrightarrow>
               (\<exists>printed t.
                  finished (process_text cipher type m T polls) = Some (printed, Inr t)))"
proof -
  have tot: "\<forall>s m. letters_only s \<longrightarrow> (\<exists>t. cipher s m = Inr t)"
    using factory_cipher_total [OF built] by blast
  with T obtain t where whole: "cipher T m = Inr t" by blast
  note dispatch = dispatch_inherits_totality [OF tot T, of m polls]
  show ?thesis
  proof (cases "type = Caesar")
    case True
    with whole dispatch show ?thesis by blast
  next
    case False
    then have "finished (process_text cipher type m T polls) = Some ([], cipher T m)"
      by (simp add: process_text_def)
    with whole dispatch show ?thesis by simp
  qed
qed

theorem constructed_cipher_never_fails_witness:
  "cipherFactory_model Playfair ''playfair example''
     = Inr (Some (PlayfairCipher (playfair_square ''playfair example'')))
   \<and> letters_only ''HELLO''
   \<and> (\<exists>t. PlayfairCipher (playfair_square ''playfair example'') ''HELLO'' Encrypt = Inr t)
   \<and> cipherFactory_model Caesar ''3'' = Inr (Some (CaesarCipher 3))
   \<and> (\<exists>printed t.
        finished (process_text (CaesarCipher 3) Caesar Encrypt ''HELLO'' (\<lambda>j k. ready))
        = Some (printed, Inr t))"
proof -
  have playfair: "cipherFactory_model Playfair ''playfair example''
      = Inr (Some (PlayfairCipher (playfair_square ''playfair example'')))"
    by (simp add: cipherFactory_model_def playfair_key_def isalpha_def isupper_def islower_def)
  have caesar: "cipherFactory_model Caesar ''3'' = Inr (Some (CaesarCipher 3))"
    by (simp add: cipherFactory_model_def parse_int_def parse_nat_def isdigit_def)
  have T: "letters_only ''HELLO''"
    by (simp add: letters_only_def isalpha_def isupper_def islower_def)
  have rdy: "\<forall>j<numThreads. \<exists>n. (\<lambda>j k. ready) j n = ready" by simp
  from constructed_cipher_never_fails [OF playfair T, of Encrypt]
  have a: "\<exists>t. PlayfairCipher (playfair_square ''playfair example'') ''HELLO'' Encrypt = Inr t"
    by blast
  from constructed_cipher_never_fails [OF caesar T, of Encrypt "\<lambda>j k. ready"] rdy
  have b: "\<exists>printed t.
      finished (process_text (CaesarCipher 3) Caesar Encrypt ''HELLO'' (\<lambda>j k. ready))
      = Some (printed, Inr t)"
    by blast
  from playfair T a caesar b show ?thesis by blast
qed

text \<open>
  C8. When the command line was processed, neither help nor version was asked for, the
  input was read and the factory returns a null pointer without throwing, then
  \<^verbatim>\<open>main\<close> reports an error and returns 1, and has written no output.
\<close>

theorem null_cipher_ends_main:
  "processCommandLine E args initial_settings = Inr s \<Longrightarrow>
   \<not> helpRequested s \<Longrightarrow> \<not> versionRequested s \<Longrightarrow>
   read_input E s = Some text \<Longrightarrow>
   cipherFactory E (cipherType s) (cipherKey s) = Inr None \<Longrightarrow>
   main E args = Some \<lparr> status = Return 1, cout = [],
      cerr = ''[error] problem constructing requested cipher'' @ endl, outfile = None \<rparr>"
  by (simp add: main_def run_cipher_def)

theorem null_cipher_ends_main_witness:
  "main null_cipher_run [''mpags-cipher'', ''-k'', ''3'']
   = Some \<lparr> status = Return 1, cout = [],
       cerr = ''[error] problem constructing requested cipher'' @ endl, outfile = None \<rparr>"
proof (rule null_cipher_ends_main)
  show "processCommandLine null_cipher_run [''mpags-cipher'', ''-k'', ''3''] initial_settings
        = Inr (initial_settings\<lparr>cipherKey := ''3''\<rparr>)"
    by (simp add: null_cipher_run_def example_run_def)
  show "\<not> helpRequested (initial_settings\<lparr>cipherKey := ''3''\<rparr>)"
    by (simp add: initial_settings_def)
  show "\<not> versionRequested (initial_settings\<lparr>cipherKey := ''3''\<rparr>)"
    by (simp add: initial_settings_def)
  show "read_input null_cipher_run (initial_settings\<lparr>cipherKey := ''3''\<rparr>) = Some ''HELLO''"
    by (simp add: read_input_def null_cipher_run_def example_run_def initial_settings_def
        isspace_def)
  show "cipherFactory null_cipher_run (cipherType (initial_settings\<lparr>cipherKey := ''3''\<rparr>))
          (cipherKey (initial_settings\<lparr>cipherKey := ''3''\<rparr>))
        = Inr None"
    by (simp add: null_cipher_run_def example_run_def)
qed

text \<open>
  C9. When the product \<^verbatim>\<open>3*inputLength\<close> does not wrap around (every text that
  fits into memory), the four ranges of the dispatch never overlap: each of the first
  three ranges starts at \<open>i * len div 4\<close>, has length \<open>len div 4\<close>, and ends at or
  before the start \<open>(i + 1) * len div 4\<close> of the next one; so any two ranges are
  disjoint sets of indices, and no character is processed twice.
\<close>

theorem ranges_never_overlap:
  "3 * len < 2 ^ 64 \<Longrightarrow>
   (\<forall>i<3. seg_first i len = i * len div 4 \<and> seg_len i len = len div 4
        \<and> seg_first (Suc i) len = Suc i * len div 4
        \<and> seg_first i len + seg_len i len \<le> seg_first (Suc i) len)
   \<and> (\<forall>i j. i < j \<and> j < 4 \<longrightarrow>
         {seg_first i len ..< seg_first i len + seg_len i len}
           \<inter> {seg_first j len ..< seg_first j len + seg_len j len} = {})"
proof (intro conjI allI impI)
  fix i :: nat
  assume len: "3 * len < 2 ^ 64" and i: "i < 3"
  from len i show "seg_first i len = i * len div 4" by (simp add: seg_first_exact)
  from i show "seg_len i len = len div 4" by (rule seg_len_inner)
  from len i show "seg_first (Suc i) len = Suc i * len div 4"
    by (simp add: seg_first_exact del: mult_Suc)
  from len i show "seg_first i len + seg_len i len \<le> seg_first (Suc i) len"
    by (rule seg_consecutive)
next
  fix i j :: nat
  assume len: "3 * len < 2 ^ 64" and ij: "i < j \<and> j < 4"
  from ij have "i < j" and "j < 4" by simp_all
  with len show "{seg_first i len ..< seg_first i len + seg_len i len}
           \<inter> {seg_first j len ..< seg_first j len + seg_len j len} = {}"
    by (rule seg_disjoint)
qed

theorem ranges_never_overlap_witness:
  "3 * (6::nat) < 2 ^ 64
   \<and> seg_first 0 6 + seg_len 0 6 \<le> seg_first (Suc 0) 6
   \<and> seg_first 1 6 + seg_len 1 6 \<le> seg_first (Suc 1) 6
   \<and> seg_first 2 6 + seg_len 2 6 \<le> seg_first (Suc 2) 6
   \<and> {seg_first 1 6 ..< seg_first 1 6 + seg_len 1 6}
        \<inter> {seg_first 2 6 ..< seg_first 2 6 + seg_len 2 6} = {}"
proof -
  have h: "3 * (6::nat) < 2 ^ 64" by simp
  have "(0::nat) < 3" and "(1::nat) < 3" and "(2::nat) < 3" by simp_all
  moreover have "(1::nat) < 2 \<and> (2::nat) < 4" by simp
  ultimately show ?thesis using ranges_never_overlap [OF h] h by blast
qed

text \<open>
  C10. \<^verbatim>\<open>main\<close> returns 0 exactly when help was requested, version was requested,
  or the text was processed and written; it returns 1 exactly when an argument was
  missing or unknown, the input file could not be read, the key was invalid, the
  factory gave no cipher, or the output file could not be written.
\<close>

theorem main_exit_code:
  "(map_option status (main E args) = Some (Return 0) \<longleftrightarrow>
      help_requested E args \<or> version_requested E args \<or> text_written E args)
   \<and> (map_option status (main E args) = Some (Return 1) \<longleftrightarrow>
      missing_argument E args \<or> unknown_argument E args \<or> unreadable_input E args
      \<or> invalid_key E args \<or> null_cipher E args \<or> unwritable_output E args)"
proof (cases "processCommandLine E args initial_settings")
  case (Inl e)
  then show ?thesis by (cases e) (simp_all add: main_def path_defs)
next
  case (Inr s)
  show ?thesis
  proof (cases "helpRequested s \<or> versionRequested s")
    case True
    with Inr show ?thesis by (auto simp: main_def path_defs)
  next
    case False
    show ?thesis
    proof (cases "read_input E s")
      case None
      with Inr False show ?thesis
        using read_input_None [of E s] by (simp add: main_def path_defs)
    next
      case (Some inputText)
      then have readable: "\<not> (inputFile s \<noteq> [] \<and> ifstream E (inputFile s) = None)"
        using read_input_None [of E s] by simp
      show ?thesis
      proof (cases "cipherFactory E (cipherType s) (cipherKey s)")
        case (Inl e)
        with Inr False Some readable show ?thesis
          by (cases e) (simp_all add: main_def run_cipher_def path_defs)
      next
        case built: (Inr c)
        show ?thesis
        proof (cases c)
          case None
          with Inr False Some readable built show ?thesis
            by (simp add: main_def run_cipher_def path_defs)
        next
          case cipher: (Some cipher)
          show ?thesis
          proof (cases "finished (process_text cipher (cipherType s) (cipherMode s)
                                    inputText (wait_for E))")
            case None
            with Inr False Some readable built cipher show ?thesis
              by (simp add: main_def run_cipher_def path_defs)
          next
            case fin: (Some pr)
            obtain printed r where pr: "pr = (printed, r)" by (cases pr)
            show ?thesis
            proof (cases r)
              case (Inl e)
              with Inr False Some readable built cipher fin pr show ?thesis
                by (simp add: main_def run_cipher_def path_defs)
            next
              case out: (Inr outputText)
              with Inr False Some readable built cipher fin pr show ?thesis
                by (simp add: main_def run_cipher_def write_output_def path_defs)
            qed
          qed
        qed
      qed
    qed
  qed
qed

theorem main_exit_code_witness:
  "text_written (caesar_run ''HELLO'') [''mpags-cipher'', ''-k'', ''3'']
   \<and> map_option status (main (caesar_run ''HELLO'') [''mpags-cipher'', ''-k'', ''3''])
       = Some (Return 0)
   \<and> missing_argument missing_argument_run [''mpags-cipher'', ''-k'']
   \<and> map_option status (main missing_argument_run [''mpags-cipher'', ''-k''])
       = Some (Return 1)"
proof -
  have "read_input (caesar_run ''HELLO'') (initial_settings\<lparr>cipherKey := ''3''\<rparr>)
        = Some ''HELLO''"
    by (simp add: read_input_def caesar_run_def example_run_def initial_settings_def isspace_def)
  then have "constructed (caesar_run ''HELLO'') [''mpags-cipher'', ''-k'', ''3'']
      = Some (initial_settings\<lparr>cipherKey := ''3''\<rparr>, ''HELLO'',
              Inr (Some (CaesarCipher 3)))"
    by (simp add: constructed_def proceeds_def caesar_run_def example_run_def initial_settings_def)
  then have "processed (caesar_run ''HELLO'') [''mpags-cipher'', ''-k'', ''3'']
      = Some (initial_settings\<lparr>cipherKey := ''3''\<rparr>, ''KHOOR'')"
    by (simp add: processed_def caesar_run_def example_run_def initial_settings_def
        dispatch_HELLO)
  then have a: "text_written (caesar_run ''HELLO'') [''mpags-cipher'', ''-k'', ''3'']"
    by (simp add: text_written_def initial_settings_def)
  have b: "missing_argument missing_argument_run [''mpags-cipher'', ''-k'']"
    by (simp add: missing_argument_def missing_argument_run_def caesar_run_def example_run_def)
  from a main_exit_code [of "caesar_run ''HELLO''" "[''mpags-cipher'', ''-k'', ''3'']"]
  have a': "map_option status (main (caesar_run ''HELLO'') [''mpags-cipher'', ''-k'', ''3''])
       = Some (Return 0)"
    by blast
  from b main_exit_code [of missing_argument_run "[''mpags-cipher'', ''-k'']"]
  have b': "map_option status (main missing_argument_run [''mpags-cipher'', ''-k''])
       = Some (Return 1)"
    by blast
  from a a' b b' show ?thesis by blast
qed

end
